theory Spec2Isabelle
  imports Complex_Main "HOL-Library.Word"
begin

unbundle bit_operations_syntax

section \<open>Data model\<close>

text \<open>
  The Python sources keep times and samples as floats and MIDI bytes as unbounded
  integers. Times and samples are modelled as \<open>real\<close> (the arithmetic of the
  source read over the reals) and bytes as \<open>int\<close>, with Python's \<open>&\<close> and
  \<open>|\<close> as \<open>AND\<close> and \<open>OR\<close>. The two subtractions of
  \<open>stop_jam_recording\<close> are the exception: a property of theirs depends on the
  rounding, and they are modelled as subtractions of doubles. Log output (\<open>print\<close>) and the attribute
  \<open>_ot_start_source\<close>, which only feeds it, are left out.
\<close>

datatype py_error = IndexError

text \<open>\<open>MIDIEvent\<close> of \<open>midi_handler.py\<close>.\<close>

record midi_event =
  timestamp :: real
  channel :: int
  message :: "int list"

text \<open>
  The fields of \<open>MIDIHandler\<close> that the recorder and the scheduler read or write.
  \<open>midi_out\<close> tells whether an output port is open (the source holds the port
  object or \<open>None\<close>); \<open>stop_playback_flag\<close> is the \<open>threading.Event\<close>
  \<open>_stop_playback\<close>.
\<close>

record midi_handler =
  midi_out :: bool
  events :: "midi_event list"
  recording :: bool
  playing :: bool
  ot_start_offset :: real
  ot_stop_time :: real
  stop_playback_flag :: bool

section \<open>Recorder\<close>

text \<open>\<open>MIDIHandler.start_recording\<close>.\<close>

definition start_recording :: "midi_handler \<Rightarrow> midi_handler" where
  "start_recording h =
     h\<lparr>events := [], ot_start_offset := 0, ot_stop_time := 0, recording := True\<rparr>"

text \<open>
  \<open>MIDIHandler._midi_callback\<close> for one incoming message \<open>msg\<close>; \<open>ts\<close> is the
  value of \<open>time.time() - self.start_time\<close> read by the callback. \<open>message[0]\<close>
  raises on an empty message, before anything is written.
\<close>

definition midi_callback :: "midi_handler \<Rightarrow> int list \<Rightarrow> real \<Rightarrow> py_error + midi_handler" where
  "midi_callback h msg ts =
     (if \<not> recording h then Inr h
      else case msg of
        [] \<Rightarrow> Inl IndexError
      | status # _ \<Rightarrow>
          let chan0 = (if status < 0xF0 then status AND 0x0F else 0);
              h1 = (if status = 0xFA then
                      (if ot_start_offset h = 0 then h\<lparr>ot_start_offset := ts\<rparr> else h)
                    else if status = 0xFC then
                      (if ot_start_offset h > 0 \<and> ot_stop_time h = 0
                       then h\<lparr>ot_stop_time := ts\<rparr> else h)
                    else if status AND 0xF0 = 0x90 then
                      (if ot_start_offset h = 0 then h\<lparr>ot_start_offset := ts\<rparr> else h)
                    else h);
              chan = (if status AND 0xF0 = 0xC0 then (status AND 0x0F) + 1 else chan0)
          in Inr (h1\<lparr>events := events h1 @ [\<lparr>timestamp = ts, channel = chan, message = msg\<rparr>]\<rparr>))"

text \<open>
  The MIDI driver calls the callback once per incoming message. A callback that
  raises has written nothing, and the next message is delivered all the same.
\<close>

definition feed :: "midi_handler \<Rightarrow> int list \<times> real \<Rightarrow> midi_handler" where
  "feed h x = (case midi_callback h (fst x) (snd x) of Inl _ \<Rightarrow> h | Inr h' \<Rightarrow> h')"

definition record_stream :: "midi_handler \<Rightarrow> (int list \<times> real) list \<Rightarrow> midi_handler" where
  "record_stream h stream = foldl feed h stream"

text \<open>\<open>MIDIHandler.get_track_activity\<close>; the dict is a map from track number.\<close>

definition get_track_activity :: "midi_handler \<Rightarrow> (int \<rightharpoonup> bool)" where
  "get_track_activity h =
     foldl (\<lambda>activity event.
              if channel event < 8 then activity(channel event + 1 \<mapsto> True) else activity)
           (map_of (map (\<lambda>i. (i, False)) [1..8]))
           (events h)"

text \<open>
  \<open>MIDIHandler._calculate_pc_lead_times\<close>. \<open>pc_events\<close> is the list of
  (index, timestamp) of the program changes; the returned dict is kept as the list of
  its items in insertion order (the keys, being indices, are distinct).
\<close>

definition pc_events :: "midi_event list \<Rightarrow> (nat \<times> real) list" where
  "pc_events evs =
     map (\<lambda>(i, event). (i, timestamp event))
       (filter (\<lambda>(i, event). length (message event) \<ge> 1 \<and> (message event ! 0) AND 0xF0 = 0xC0)
          (zip [0..<length evs] evs))"

fun lead_loop :: "real \<Rightarrow> real \<Rightarrow> (nat \<times> real) list \<Rightarrow> (nat \<times> real) list" where
  "lead_loop lead_fraction prev_time [] = []"
| "lead_loop lead_fraction prev_time ((event_idx, pc_time) # rest) =
     (let pattern_duration = pc_time - prev_time;
          lead_time = pattern_duration * lead_fraction;
          adjusted_time = max (prev_time + 0.1) (pc_time - lead_time)
      in (event_idx, adjusted_time) # lead_loop lead_fraction pc_time rest)"

definition calculate_pc_lead_times :: "real \<Rightarrow> midi_event list \<Rightarrow> (nat \<times> real) list" where
  "calculate_pc_lead_times lead_fraction evs = lead_loop lead_fraction 0 (pc_events evs)"

section \<open>Event filter and dispatchers of the replay loop\<close>

text \<open>\<open>MIDIHandler._should_filter_event\<close>.\<close>

definition should_filter_event :: "midi_event \<Rightarrow> int \<Rightarrow> bool" where
  "should_filter_event event solo_track =
     (let msg = message event in
      if length msg < 3 then False
      else
        let status = msg ! 0; cc_num = msg ! 1 in
        if status AND 0xF0 \<noteq> 0xB0 then False
        else
          let chan = (status AND 0x0F) + 1 in
          if cc_num = 49 \<and> chan \<noteq> solo_track then True else False)"

text \<open>
  The inner \<open>while event_index < len(self.events)\<close> loop of \<open>_playback_loop\<close>
  (the regular dispatcher), run at one reading \<open>current_time\<close> of the clock. It
  returns the messages handed to \<open>send_message\<close>, in order, and the new
  \<open>event_index\<close>. The set \<open>early_pc_sent\<close> holds the indices of the program
  changes that the early dispatcher has already sent.
\<close>

function dispatch_due ::
  "midi_event list \<Rightarrow> int option \<Rightarrow> nat set \<Rightarrow> real \<Rightarrow> nat \<Rightarrow> int list list \<times> nat" where
  "dispatch_due evs isolated early_pc_sent current_time event_index =
     (if event_index < length evs then
        let event = evs ! event_index in
        if event_index \<in> early_pc_sent then
          dispatch_due evs isolated early_pc_sent current_time (event_index + 1)
        else if current_time \<ge> timestamp event then
          if isolated \<noteq> None \<and> should_filter_event event (the isolated) then
            dispatch_due evs isolated early_pc_sent current_time (event_index + 1)
          else
            (case dispatch_due evs isolated early_pc_sent current_time (event_index + 1)
             of (ms, j) \<Rightarrow> (message event # ms, j))
        else ([], event_index)
      else ([], event_index))"
  by pat_completeness auto
termination
  by (relation "measure (\<lambda>(evs, isolated, sent, cur, i). length evs - i)") auto

declare dispatch_due.simps [simp del]

text \<open>
  The \<open>for adj_time, evt_idx in ...\<close> loop of \<open>_playback_loop\<close> (the early
  dispatcher of program changes) at one reading of the clock. It returns the
  messages sent, the new \<open>early_pc_sent\<close>, and the exception that ended it, if
  any: \<open>self.events[evt_idx]\<close>, \<open>event.message[0]\<close> and \<open>event.message[1]\<close>
  raise \<open>IndexError\<close> out of range.
\<close>

fun dispatch_early ::
  "midi_event list \<Rightarrow> real \<Rightarrow> (real \<times> nat) list \<Rightarrow> nat set
     \<Rightarrow> int list list \<times> nat set \<times> py_error option" where
  "dispatch_early evs current_time [] early_pc_sent = ([], early_pc_sent, None)"
| "dispatch_early evs current_time ((adj_time, evt_idx) # rest) early_pc_sent =
     (if evt_idx \<notin> early_pc_sent \<and> current_time \<ge> adj_time then
        (if evt_idx \<ge> length evs then ([], early_pc_sent, Some IndexError)
         else
           let event = evs ! evt_idx in
           if length (message event) < 2 then ([], early_pc_sent, Some IndexError)
           else
             (case dispatch_early evs current_time rest (insert evt_idx early_pc_sent)
              of (ms, sent', r) \<Rightarrow> (message event # ms, sent', r)))
      else dispatch_early evs current_time rest early_pc_sent)"

section \<open>Playback scheduler\<close>

text \<open>
  What the playback thread does to the outside, in order: a message handed to
  \<open>midi_out.send_message\<close>, a \<open>time.sleep\<close>, a call of the \<open>on_ready\<close> or of
  the \<open>on_complete\<close> callback.
\<close>

datatype effect = Send "int list" | Sleep real | OnReady | OnComplete

text \<open>
  The arguments of \<open>start_playback\<close> and \<open>_playback_loop\<close>. A callback is
  modelled by whether one was passed; calling it is the effect above.
\<close>

record playback_args =
  isolated_track :: "int option"
  on_complete :: bool
  duration :: real
  tail_time :: real
  on_ready :: bool
  start_pattern :: "int option"
  prog_change_channel :: int
  pre_roll :: real
  stereo_duration :: real

definition OT_LATENCY_COMPENSATION :: real where
  "OT_LATENCY_COMPENSATION = 0.2"

definition send_ot_stop :: "int \<Rightarrow> effect list" where
  "send_ot_stop auto_ch =
     [Send [0x90 OR auto_ch, 33, 100], Sleep 0.01, Send [0x80 OR auto_ch, 33, 0]]"

definition send_ot_start :: "int \<Rightarrow> effect list" where
  "send_ot_start auto_ch =
     [Send [0x90 OR auto_ch, 34, 100], Sleep 0.01, Send [0x80 OR auto_ch, 34, 0]]"

definition mute_all_tracks :: "effect list" where
  "mute_all_tracks =
     concat (map (\<lambda>track. [Send [0xB0 OR (track - 1), 49, 127], Sleep 0.02]) [1..8])"

definition unmute_all_tracks :: "effect list" where
  "unmute_all_tracks =
     concat (map (\<lambda>track. [Send [0xB0 OR (track - 1), 49, 0], Sleep 0.02]) [1..8])"

definition send_isolation_mutes :: "int \<Rightarrow> effect list" where
  "send_isolation_mutes solo_track =
     concat (map (\<lambda>track. [Send [0xB0 OR (track - 1), 49, if track = solo_track then 0 else 127],
                            Sleep 0.02]) [1..8])"

text \<open>
  The thread reads the wall clock and the cancellation flag, which other threads
  move. Each place where \<open>_playback_loop\<close> reads one of them gets its own reading:
  \<open>time_ready\<close> is \<open>time.time()\<close> after \<open>on_ready()\<close>, \<open>time_start\<close> the one
  taken after the start trigger, \<open>time_at_loop n\<close> and \<open>stop_at_loop n\<close> the
  readings of the clock and of \<open>_stop_playback.is_set()\<close> in iteration \<open>n\<close> of
  the replay loop, \<open>stop_at_tail\<close>, \<open>stop_at_match\<close> and \<open>stop_at_done\<close> the
  flag at the tail wait, at the duration matching and at the completion callback,
  \<open>time_at_match\<close> the clock at the duration matching.
\<close>

record clock_env =
  time_ready :: real
  time_start :: real
  time_at_loop :: "nat \<Rightarrow> real"
  stop_at_loop :: "nat \<Rightarrow> bool"
  stop_at_tail :: bool
  stop_at_match :: bool
  time_at_match :: real
  stop_at_done :: bool

text \<open>
  The \<open>while True\<close> replay loop, from iteration \<open>n\<close> on, with the loop state
  (\<open>event_index\<close>, \<open>early_pc_sent\<close>) and the effects so far. It may run for
  ever (a clock that never reaches \<open>playback_duration\<close> and a flag never set):
  not returning is \<open>None\<close>. A returned pair holds the effects and the exception
  that ended the thread, if any.
\<close>

partial_function (option) replay_loop ::
  "clock_env \<Rightarrow> midi_event list \<Rightarrow> int option \<Rightarrow> (real \<times> nat) list \<Rightarrow> real \<Rightarrow> real
     \<Rightarrow> nat \<Rightarrow> nat \<Rightarrow> nat set \<Rightarrow> effect list \<Rightarrow> (effect list \<times> py_error option) option" where
  "replay_loop env evs isolated early_pc_events start_time playback_duration
       n event_index early_pc_sent trace =
     (if stop_at_loop env n then Some (trace, None)
      else
        let current_time = time_at_loop env n - start_time in
        if current_time \<ge> playback_duration then Some (trace, None)
        else
          (case dispatch_early evs current_time early_pc_events early_pc_sent of
             (ms1, sent', Some e) \<Rightarrow> Some (trace @ map Send ms1, Some e)
           | (ms1, sent', None) \<Rightarrow>
               (case dispatch_due evs isolated sent' current_time event_index of
                  (ms2, j) \<Rightarrow>
                    replay_loop env evs isolated early_pc_events start_time playback_duration
                      (Suc n) j sent' (trace @ map Send ms1 @ map Send ms2 @ [Sleep 0.001]))))"

text \<open>The steps of \<open>_playback_loop\<close> before the replay loop.\<close>

definition before_loop :: "playback_args \<Rightarrow> effect list" where
  "before_loop args =
     (let auto_ch = prog_change_channel args - 1 in
      (case isolated_track args of
         None \<Rightarrow> []
       | Some tr \<Rightarrow>
           send_ot_stop auto_ch @ [Sleep 0.1] @ send_ot_stop auto_ch @ [Sleep 0.02]
           @ send_ot_stop auto_ch @ [Sleep 0.5]
           @ mute_all_tracks @ [Sleep 0.3]
           @ send_isolation_mutes tr @ [Sleep 0.3])
      @ (case start_pattern args of
           None \<Rightarrow> []
         | Some p \<Rightarrow>
             let ch = prog_change_channel args - 1; bank_msb = 0; prog_num = p - 1 in
             [Send [0xB0 OR ch, 0, bank_msb], Sleep 0.02, Send [0xC0 OR ch, prog_num], Sleep 0.3])
      @ (if on_ready args then [OnReady, Sleep 0.05] else [])
      @ (let effective_pre_roll = max 0 (pre_roll args - OT_LATENCY_COMPENSATION) in
         if effective_pre_roll > 0 then [Sleep effective_pre_roll] else [])
      @ send_ot_start auto_ch)"

text \<open>
  The replay loop as \<open>_playback_loop\<close> enters it: the early program changes
  sorted by adjusted time (Python's sort is stable, as \<open>sort_key\<close> is), the
  playback timer offset by the pre-roll, and the loop's end time.
\<close>

definition playback_duration_of :: "midi_event list \<Rightarrow> playback_args \<Rightarrow> real" where
  "playback_duration_of evs args =
     (let content_duration =
            (if duration args > 0 then duration args
             else if evs \<noteq> [] then timestamp (last evs) + 0.5 else 0)
      in pre_roll args + content_duration)"

definition early_pc_events_of :: "midi_event list \<Rightarrow> (real \<times> nat) list" where
  "early_pc_events_of evs =
     sort_key fst (map (\<lambda>(evt_idx, adj_time). (adj_time, evt_idx)) (calculate_pc_lead_times 0.2 evs))"

definition run_replay ::
  "clock_env \<Rightarrow> midi_event list \<Rightarrow> playback_args \<Rightarrow> (effect list \<times> py_error option) option" where
  "run_replay env evs args =
     replay_loop env evs (isolated_track args) (early_pc_events_of evs)
       (time_start env - pre_roll args) (playback_duration_of evs args)
       0 0 {} (before_loop args)"

text \<open>
  The steps of \<open>_playback_loop\<close> after the replay loop: the stop trigger, the
  tail wait, the duration matching, the completion callback and, in an isolation
  pass, the double-tap stop and the unmute. \<open>audio_start_time\<close> of the source is
  \<open>None\<close> or the clock read after \<open>on_ready()\<close>; its truth value in
  \<open>stereo_duration > 0 and audio_start_time and ...\<close> is that of a Python float.
  The write \<open>self.playing = False\<close> before the callback is no effect on the
  outside and is left out.
\<close>

definition after_loop :: "clock_env \<Rightarrow> playback_args \<Rightarrow> effect list" where
  "after_loop env args =
     (let auto_ch = prog_change_channel args - 1;
          audio_start_time = (if on_ready args then Some (time_ready env) else None)
      in
      send_ot_stop auto_ch
      @ (if tail_time args > 0 \<and> \<not> stop_at_tail env then [Sleep (tail_time args)] else [])
      @ (if stereo_duration args > 0
            \<and> (case audio_start_time of None \<Rightarrow> False | Some t \<Rightarrow> t \<noteq> 0)
            \<and> \<not> stop_at_match env
         then
           (let elapsed = time_at_match env - the audio_start_time;
                remaining = stereo_duration args - elapsed
            in if remaining > 0 then [Sleep remaining] else [])
         else [])
      @ (if on_complete args \<and> \<not> stop_at_done env then [OnComplete] else [])
      @ (case isolated_track args of
           None \<Rightarrow> []
         | Some tr \<Rightarrow>
             send_ot_stop auto_ch @ [Sleep 0.02] @ send_ot_stop auto_ch @ [Sleep 0.3]
             @ unmute_all_tracks))"

text \<open>\<open>MIDIHandler._playback_loop\<close>, the body of the playback thread.\<close>

definition playback_loop ::
  "clock_env \<Rightarrow> midi_event list \<Rightarrow> playback_args \<Rightarrow> (effect list \<times> py_error option) option" where
  "playback_loop env evs args =
     (case run_replay env evs args of
        None \<Rightarrow> None
      | Some (trace, Some e) \<Rightarrow> Some (trace, Some e)
      | Some (trace, None) \<Rightarrow> Some (trace @ after_loop env args, None))"

text \<open>
  \<open>MIDIHandler.start_playback\<close>: the effects in the calling thread, the
  arguments of the playback thread it started (\<open>None\<close> when it started none) and
  the handler afterwards.
\<close>

definition start_playback ::
  "midi_handler \<Rightarrow> playback_args \<Rightarrow> effect list \<times> playback_args option \<times> midi_handler" where
  "start_playback h args =
     (if \<not> midi_out h then ((if on_complete args then [OnComplete] else []), None, h)
      else ([], Some args, h\<lparr>stop_playback_flag := False, playing := True\<rparr>))"

section \<open>Audio capture\<close>

text \<open>
  \<open>AudioHandler._calc_db\<close> on the samples of one channel of a block. The mean
  of an empty array is NaN in numpy, and NaN goes through \<open>sqrt\<close>, \<open>max\<close> (whose
  first argument it is) and \<open>log10\<close>: \<open>None\<close> stands for that NaN.
\<close>

definition rms :: "real list \<Rightarrow> real" where
  "rms data = sqrt (sum_list (map (\<lambda>x. x\<^sup>2) data) / real (length data))"

definition level_of_rms :: "real \<Rightarrow> real" where
  "level_of_rms r = 20 * log 10 (max r (1 / 10 ^ 10))"

definition calc_db :: "real list \<Rightarrow> real option" where
  "calc_db data = (if data = [] then None else Some (level_of_rms (rms data)))"

text \<open>
  A two-dimensional numpy array of samples, \<open>shape = (length (frames a), ncols a)\<close>:
  every frame holds \<open>ncols a\<close> samples.
\<close>

record audio =
  ncols :: nat
  frames :: "real list list"

definition wf_audio :: "audio \<Rightarrow> bool" where
  "wf_audio a \<longleftrightarrow> list_all (\<lambda>row. length row = ncols a) (frames a)"

text \<open>
  numpy's index into an axis of size \<open>n\<close> with a Python integer: a negative
  index counts from the end, and an index outside \<open>[-n, n)\<close> raises.
\<close>

definition np_index :: "nat \<Rightarrow> int \<Rightarrow> py_error + nat" where
  "np_index n i =
     (if 0 \<le> i \<and> i < int n then Inr (nat i)
      else if - int n \<le> i \<and> i < 0 then Inr (nat (int n + i))
      else Inl IndexError)"

text \<open>\<open>AudioHandler._extract_stereo\<close>.\<close>

definition extract_stereo :: "audio \<Rightarrow> int \<Rightarrow> py_error + audio" where
  "extract_stereo a offset =
     (let ch1 = offset; ch2 = offset + 1 in
      if ch2 < int (ncols a) then
        (case np_index (ncols a) ch1 of
           Inl e \<Rightarrow> Inl e
         | Inr c1 \<Rightarrow>
             (case np_index (ncols a) ch2 of
                Inl e \<Rightarrow> Inl e
              | Inr c2 \<Rightarrow> Inr \<lparr>ncols = 2, frames = map (\<lambda>row. [row ! c1, row ! c2]) (frames a)\<rparr>))
      else if ch1 < int (ncols a) then
        (case np_index (ncols a) ch1 of
           Inl e \<Rightarrow> Inl e
         | Inr c1 \<Rightarrow> Inr \<lparr>ncols = 2, frames = map (\<lambda>row. [row ! c1, row ! c1]) (frames a)\<rparr>)
      else Inr \<lparr>ncols = 2, frames = replicate (length (frames a)) [0, 0]\<rparr>)"

section \<open>Session\<close>

text \<open>
  The timing fields of \<open>SessionMetadata\<close>; \<open>md_ot_start_offset\<close> and
  \<open>md_ot_content_duration\<close> are its \<open>ot_start_offset\<close> and
  \<open>ot_content_duration\<close> (the handler has a field of the first name too).
\<close>

record session_metadata =
  duration_seconds :: real
  md_ot_start_offset :: real
  md_ot_content_duration :: real

text \<open>
  Arithmetic on Python floats, which are IEEE 754 doubles: the exact result is
  rounded to the nearest number with a 53-bit significand, a tie going to the even
  significand. \<open>binade x\<close> is the exponent \<open>e\<close> with \<open>2^e \<le> |x| < 2^(e+1)\<close>,
  and \<open>fl x\<close> the double nearest to \<open>x\<close>. The exponent range is not modelled:
  the times of a session are far from overflow, and a difference of two doubles
  that falls in the subnormal range is exact in the doubles as it is here.
\<close>

definition round_half_even :: "real \<Rightarrow> int" where
  "round_half_even y =
     (let f = \<lfloor>y\<rfloor>; d = y - of_int f in
      if d < 1 / 2 then f else if d > 1 / 2 then f + 1 else if even f then f else f + 1)"

definition binade :: "real \<Rightarrow> int" where
  "binade x = \<lfloor>log 2 \<bar>x\<bar>\<rfloor>"

definition fl :: "real \<Rightarrow> real" where
  "fl x = (if x = 0 then 0
           else let u = 2 powi (binade x - 52) in of_int (round_half_even (x / u)) * u)"

definition fsub :: "real \<Rightarrow> real \<Rightarrow> real" where
  "fsub a b = fl (a - b)"

text \<open>
  The timing part of \<open>Session.stop_jam_recording\<close>. \<open>audio_duration\<close> is what
  \<open>audio_handler.get_duration()\<close> returned and \<open>audio_onset\<close> what
  \<open>audio_handler.detect_audio_onset(threshold_db=-40.0)\<close> returns; \<open>-\<close> on
  floats is \<open>fsub\<close>.
\<close>

definition stop_jam_recording ::
  "midi_handler \<Rightarrow> real \<Rightarrow> real \<Rightarrow> session_metadata \<Rightarrow> session_metadata" where
  "stop_jam_recording h audio_duration audio_onset md =
     (let midi_start = ot_start_offset h;
          midi_stop = ot_stop_time h;
          md1 = md\<lparr>duration_seconds := audio_duration\<rparr>;
          md2 = (if midi_start > 0 then md1\<lparr>md_ot_start_offset := midi_start\<rparr>
                 else md1\<lparr>md_ot_start_offset := audio_onset\<rparr>)
      in if midi_stop > midi_start
         then md2\<lparr>md_ot_content_duration := fsub midi_stop midi_start\<rparr>
         else md2\<lparr>md_ot_content_duration := fsub audio_duration (md_ot_start_offset md2)\<rparr>)"

text \<open>
  \<open>Session.capture_stem\<close>: its return value and what it asked of the audio
  handler and of the MIDI handler, in order. \<open>audio_started\<close> and \<open>saved\<close> are
  the results of \<open>audio_handler.start_recording()\<close> and of \<open>save_main_mix\<close>.
\<close>

datatype session_action =
  AudioClear | AudioStart | StartPlayback playback_args | WaitDone real | AudioStop | SaveMainMix int

definition capture_stem ::
  "midi_handler \<Rightarrow> session_metadata \<Rightarrow> bool \<Rightarrow> bool \<Rightarrow> int \<Rightarrow> bool \<times> session_action list" where
  "capture_stem h md audio_started saved track_num =
     (if \<not> midi_out h then (False, [])
      else if \<not> audio_started then (False, [AudioClear, AudioStart])
      else
        (saved,
         [AudioClear, AudioStart,
          StartPlayback \<lparr>isolated_track = Some track_num, on_complete = True, duration = 0,
            tail_time = 0, on_ready = False, start_pattern = None, prog_change_channel = 16,
            pre_roll = 0, stereo_duration = 0\<rparr>,
          WaitDone (duration_seconds md + 2.0), AudioStop, SaveMainMix track_num]))"

section \<open>Vocabulary of the properties\<close>

text \<open>
  An event at index \<open>k\<close> that the regular dispatcher hands to \<open>send_message\<close>
  once it is due: not sent early as a program change and not filtered.
\<close>

definition kept :: "midi_event list \<Rightarrow> int option \<Rightarrow> nat set \<Rightarrow> nat \<Rightarrow> bool" where
  "kept evs isol sent k \<longleftrightarrow>
     k \<notin> sent \<and> \<not> (isol \<noteq> None \<and> should_filter_event (evs ! k) (the isol))"

text \<open>
  The suppressed events in the words of the specification: a control change
  (status high nibble \<open>0xB0\<close>) of at least three bytes, controller 49, whose
  1-indexed channel differs from the isolated track \<open>s\<close>.
\<close>

definition mute_cc_for_other_track :: "int list \<Rightarrow> int \<Rightarrow> bool" where
  "mute_cc_for_other_track msg s \<longleftrightarrow>
     length msg \<ge> 3 \<and> (msg ! 0) AND 0xF0 = 0xB0 \<and> msg ! 1 = 49 \<and> ((msg ! 0) AND 0x0F) + 1 \<noteq> s"

text \<open>A timeline to run the dispatcher on.\<close>

definition demo_timeline :: "midi_event list" where
  "demo_timeline =
     [\<lparr>timestamp = 1, channel = 0, message = [0xB0, 49, 127]\<rparr>,
      \<lparr>timestamp = 2, channel = 2, message = [0xB2, 49, 127]\<rparr>,
      \<lparr>timestamp = 3, channel = 0, message = [0x90, 60, 100]\<rparr>,
      \<lparr>timestamp = 4, channel = 1, message = [0xB1, 7, 100]\<rparr>,
      \<lparr>timestamp = 9, channel = 7, message = [0xB7, 49, 0]\<rparr>]"

text \<open>Three program changes 0.05 s and 0.11 s apart.\<close>

definition pc_demo :: "midi_event list" where
  "pc_demo =
     [\<lparr>timestamp = 1, channel = 1, message = [0xC0, 3]\<rparr>,
      \<lparr>timestamp = 1.05, channel = 1, message = [0xC0, 4]\<rparr>,
      \<lparr>timestamp = 1.16, channel = 1, message = [0xC0, 5]\<rparr>]"

text \<open>
  A playback of these program changes with no isolation and a content duration of
  2 s, whose loop reads the clock at 0.9 s, 1.06 s, 1.12 s, 1.2 s and 3 s.
\<close>

definition twice_env :: clock_env where
  "twice_env = \<lparr>time_ready = 0, time_start = 0,
     time_at_loop = (\<lambda>n. if n = 0 then 0.9 else if n = 1 then 1.06 else if n = 2 then 1.12
                          else if n = 3 then 1.2 else 3),
     stop_at_loop = (\<lambda>n. False), stop_at_tail = False, stop_at_match = False,
     time_at_match = 3, stop_at_done = False\<rparr>"

definition twice_args :: playback_args where
  "twice_args = \<lparr>isolated_track = None, on_complete = False, duration = 2,
     tail_time = 0, on_ready = False, start_pattern = None, prog_change_channel = 16,
     pre_roll = 0, stereo_duration = 0\<rparr>"

text \<open>Inputs to run the audio, session and playback operations on.\<close>

definition audio_demo :: audio where
  "audio_demo = \<lparr>ncols = 3, frames = [[0.1, 0.2, 0.3], [0.4, 0.5, 0.6]]\<rparr>"

definition jam_demo :: midi_handler where
  "jam_demo = \<lparr>midi_out = True, events = [], recording = False, playing = False,
     ot_start_offset = 1, ot_stop_time = 0, stop_playback_flag = False\<rparr>"

text \<open>
  A jam in which no start was captured from MIDI, recorded at 48000 Hz for 313344
  samples, with the audio onset found at sample 24576: \<open>dur_demo\<close> and
  \<open>onset_demo\<close> are the doubles that the two divisions by the sample rate give.
\<close>

definition silent_jam :: midi_handler where
  "silent_jam = \<lparr>midi_out = True, events = [], recording = False, playing = False,
     ot_start_offset = 0, ot_stop_time = 0, stop_playback_flag = False\<rparr>"

definition dur_demo :: real where
  "dur_demo = 7349874591868649 / 2 ^ 50"

definition onset_demo :: real where
  "onset_demo = 1152921504606847 / 2 ^ 51"

definition md_demo :: session_metadata where
  "md_demo = \<lparr>duration_seconds = 0, md_ot_start_offset = 0, md_ot_content_duration = 0\<rparr>"

definition no_port_demo :: midi_handler where
  "no_port_demo = \<lparr>midi_out = False, events = [], recording = False, playing = False,
     ot_start_offset = 0, ot_stop_time = 0, stop_playback_flag = False\<rparr>"

definition args_demo :: playback_args where
  "args_demo = \<lparr>isolated_track = Some 3, on_complete = True, duration = 8,
     tail_time = 2, on_ready = True, start_pattern = None, prog_change_channel = 16,
     pre_roll = 1, stereo_duration = 10\<rparr>"

text \<open>
  The messages the recorder takes as the device's start (a transport start, or a
  note-on on any channel) and stop (a transport stop), and the start indicator in
  the words of the specification (a transport start, or a note-on on channel 1,
  status \<open>0x90\<close>). \<open>first_time P stream\<close> is the timestamp of the first message
  of the stream that satisfies \<open>P\<close>, and 0, the recorder's "not captured", when
  there is none.
\<close>

definition start_indicator :: "int list \<Rightarrow> bool" where
  "start_indicator msg \<longleftrightarrow> msg \<noteq> [] \<and> (hd msg = 0xFA \<or> (hd msg) AND 0xF0 = 0x90)"

definition spec_start_indicator :: "int list \<Rightarrow> bool" where
  "spec_start_indicator msg \<longleftrightarrow> msg \<noteq> [] \<and> (hd msg = 0xFA \<or> hd msg = 0x90)"

definition stop_indicator :: "int list \<Rightarrow> bool" where
  "stop_indicator msg \<longleftrightarrow> msg \<noteq> [] \<and> hd msg = 0xFC"

definition first_time :: "(int list \<Rightarrow> bool) \<Rightarrow> (int list \<times> real) list \<Rightarrow> real" where
  "first_time P stream = (case find (\<lambda>x. P (fst x)) stream of None \<Rightarrow> 0 | Some x \<Rightarrow> snd x)"

text \<open>A handler before any recording, and a stream of incoming messages.\<close>

definition idle_handler :: midi_handler where
  "idle_handler = \<lparr>midi_out = True, events = [], recording = False, playing = False,
     ot_start_offset = 0, ot_stop_time = 0, stop_playback_flag = False\<rparr>"

definition note_on_demo :: "(int list \<times> real) list" where
  "note_on_demo = [([0x94, 60, 100], 1.5), ([0xFA], 2), ([0xFC], 9)]"


text \<open>The \<open>channel\<close> that the callback stores for a message with the given status byte.\<close>

definition stored_channel :: "int \<Rightarrow> int" where
  "stored_channel status =
     (if status AND 0xF0 = 0xC0 then (status AND 0x0F) + 1
      else if status < 0xF0 then status AND 0x0F else 0)"

text \<open>
  Every program change of the timeline has its data byte: a program change is a
  two-byte message, and \<open>_playback_loop\<close> reads \<open>event.message[1]\<close> of each
  one it sends early.
\<close>

definition wf_pcs :: "midi_event list \<Rightarrow> bool" where
  "wf_pcs evs \<longleftrightarrow>
     (\<forall>e \<in> set evs. 1 \<le> length (message e) \<and> (message e ! 0) AND 0xF0 = 0xC0
        \<longrightarrow> 2 \<le> length (message e))"

text \<open>
  Iteration \<open>k\<close> of the replay loop reads the flag set or the clock at or past
  the end of the playback.
\<close>

definition loop_exit_at :: "clock_env \<Rightarrow> midi_event list \<Rightarrow> playback_args \<Rightarrow> nat \<Rightarrow> bool" where
  "loop_exit_at env evs args k \<longleftrightarrow>
     stop_at_loop env k
     \<or> playback_duration_of evs args \<le> time_at_loop env k - (time_start env - pre_roll args)"

text \<open>
  Two runs of the environment: one cancelled in the third iteration of the loop,
  with the flag staying set, and one never cancelled; and a handler holding the
  demonstration timeline.
\<close>

definition cancel_env :: clock_env where
  "cancel_env = \<lparr>time_ready = 100, time_start = 101, time_at_loop = (\<lambda>n. 101 + real n),
     stop_at_loop = (\<lambda>n. 2 \<le> n), stop_at_tail = True, stop_at_match = True,
     time_at_match = 104, stop_at_done = True\<rparr>"

definition full_env :: clock_env where
  "full_env = \<lparr>time_ready = 100, time_start = 101, time_at_loop = (\<lambda>n. 101 + 4 * real n),
     stop_at_loop = (\<lambda>n. False), stop_at_tail = False, stop_at_match = False,
     time_at_match = 109, stop_at_done = False\<rparr>"

definition replay_handler :: midi_handler where
  "replay_handler = \<lparr>midi_out = True, events = demo_timeline, recording = False,
     playing = False, ot_start_offset = 1, ot_stop_time = 9, stop_playback_flag = False\<rparr>"

text \<open>
  The last step of \<open>_playback_loop\<close>, after the completion callback: in an
  isolation pass, the double-tap stop and the unmute of all tracks.
\<close>

definition isolation_cleanup :: "playback_args \<Rightarrow> effect list" where
  "isolation_cleanup args =
     (case isolated_track args of
        None \<Rightarrow> []
      | Some s \<Rightarrow>
          send_ot_stop (prog_change_channel args - 1) @ [Sleep 0.02]
          @ send_ot_stop (prog_change_channel args - 1) @ [Sleep 0.3] @ unmute_all_tracks)"

section \<open>Properties\<close>

subsection \<open>The dispatcher of an isolation pass\<close>

lemma should_filter_event_iff:
  "should_filter_event event s \<longleftrightarrow> mute_cc_for_other_track (message event) s"
  by (auto simp: should_filter_event_def mute_cc_for_other_track_def Let_def)

lemma dispatch_due_general:
  "dispatch_due evs isol sent cur i = (ms, j) \<Longrightarrow> i \<le> length evs \<Longrightarrow>
   i \<le> j \<and> j \<le> length evs
    \<and> (\<forall>k. i \<le> k \<and> k < j \<and> k \<notin> sent \<longrightarrow> timestamp (evs ! k) \<le> cur)
    \<and> (j < length evs \<longrightarrow> j \<notin> sent \<and> cur < timestamp (evs ! j))
    \<and> ms = map (\<lambda>k. message (evs ! k)) (filter (kept evs isol sent) [i..<j])"
proof (induction evs isol sent cur i arbitrary: ms j rule: dispatch_due.induct)
  case (1 evs isol sent cur i)
  show ?case
  proof (cases "i < length evs")
    case False
    with "1.prems" show ?thesis by (simp add: dispatch_due.simps [of evs _ sent cur i])
  next
    case lt: True
    have ki: "kept evs isol sent i \<longleftrightarrow>
        i \<notin> sent \<and> \<not> (isol \<noteq> None \<and> should_filter_event (evs ! i) (the isol))"
      by (simp add: kept_def)
    have up: "i < j \<Longrightarrow> [i..<j] = i # [i + 1..<j]" for j by (simp add: upt_conv_Cons)
    have ext: "\<forall>k. i + 1 \<le> k \<and> k < j \<and> k \<notin> sent \<longrightarrow> timestamp (evs ! k) \<le> cur \<Longrightarrow>
       i \<in> sent \<or> timestamp (evs ! i) \<le> cur \<Longrightarrow>
       \<forall>k. i \<le> k \<and> k < j \<and> k \<notin> sent \<longrightarrow> timestamp (evs ! k) \<le> cur"
      by (metis Suc_eq_plus1 Suc_leI le_neq_implies_less)
    show ?thesis
    proof (cases "i \<in> sent")
      case True
      with lt "1.prems" have r: "dispatch_due evs isol sent cur (i + 1) = (ms, j)"
        by (simp add: dispatch_due.simps [of evs _ sent cur i])
      from "1.IH"(1) [OF lt refl True r] lt
      have ih: "i + 1 \<le> j \<and> j \<le> length evs
        \<and> (\<forall>k. i + 1 \<le> k \<and> k < j \<and> k \<notin> sent \<longrightarrow> timestamp (evs ! k) \<le> cur)
        \<and> (j < length evs \<longrightarrow> j \<notin> sent \<and> cur < timestamp (evs ! j))
        \<and> ms = map (\<lambda>k. message (evs ! k)) (filter (kept evs isol sent) [i + 1..<j])"
        by simp
      then have "i < j" by simp
      with ih up [of j] ext True show ?thesis by (simp add: ki)
    next
      case nsent: False
      show ?thesis
      proof (cases "timestamp (evs ! i) \<le> cur")
        case False
        with nsent lt "1.prems" show ?thesis
          by (simp add: dispatch_due.simps [of evs _ sent cur i])
      next
        case due: True
        show ?thesis
        proof (cases "isol \<noteq> None \<and> should_filter_event (evs ! i) (the isol)")
          case True
          with due nsent lt "1.prems" have r: "dispatch_due evs isol sent cur (i + 1) = (ms, j)"
            by (simp add: dispatch_due.simps [of evs _ sent cur i])
          from "1.IH"(2) [OF lt refl nsent due True r] lt
          have ih: "i + 1 \<le> j \<and> j \<le> length evs
            \<and> (\<forall>k. i + 1 \<le> k \<and> k < j \<and> k \<notin> sent \<longrightarrow> timestamp (evs ! k) \<le> cur)
            \<and> (j < length evs \<longrightarrow> j \<notin> sent \<and> cur < timestamp (evs ! j))
            \<and> ms = map (\<lambda>k. message (evs ! k)) (filter (kept evs isol sent) [i + 1..<j])"
            by simp
          then have "i < j" by simp
          with ih up [of j] ext due True show ?thesis by (simp add: ki)
        next
          case keep: False
          obtain ms' j' where r: "dispatch_due evs isol sent cur (i + 1) = (ms', j')"
            by (cases "dispatch_due evs isol sent cur (i + 1)")
          with keep due nsent lt "1.prems" have eq: "ms = message (evs ! i) # ms'" "j = j'"
            by (auto simp add: dispatch_due.simps [of evs _ sent cur i] Let_def)
          from "1.IH"(3) [OF lt refl nsent due keep r] lt eq
          have ih: "i + 1 \<le> j \<and> j \<le> length evs
            \<and> (\<forall>k. i + 1 \<le> k \<and> k < j \<and> k \<notin> sent \<longrightarrow> timestamp (evs ! k) \<le> cur)
            \<and> (j < length evs \<longrightarrow> j \<notin> sent \<and> cur < timestamp (evs ! j))
            \<and> ms' = map (\<lambda>k. message (evs ! k)) (filter (kept evs isol sent) [i + 1..<j])"
            by simp
          then have "i < j" by simp
          with ih up [of j] ext due keep nsent eq show ?thesis by (simp add: ki)
        qed
      qed
    qed
  qed
qed


text \<open>
  C1. In an isolation pass with \<open>isolated_track = s\<close>, one run of the regular
  dispatcher from \<open>event_index = i\<close> at clock reading \<open>cur\<close> goes through the
  events \<open>i..<j\<close>, all due, and stops at the first event that is not due (or at
  the end of the timeline). Of these events, leaving aside the program changes that
  were already sent early, it skips exactly the mute control changes (CC 49) of a
  track other than \<open>s\<close>; every other one, the mute control changes of track
  \<open>s\<close> included, is sent with its recorded bytes, in timeline order.
\<close>

theorem C1_dispatcher_suppresses_exactly_other_track_mutes:
  assumes "dispatch_due evs (Some s) sent cur i = (ms, j)" and "i \<le> length evs"
  shows "i \<le> j \<and> j \<le> length evs
    \<and> (\<forall>k. i \<le> k \<and> k < j \<and> k \<notin> sent \<longrightarrow> timestamp (evs ! k) \<le> cur)
    \<and> (j < length evs \<longrightarrow> j \<notin> sent \<and> cur < timestamp (evs ! j))
    \<and> ms = map (\<lambda>k. message (evs ! k))
           (filter (\<lambda>k. k \<notin> sent \<and> \<not> mute_cc_for_other_track (message (evs ! k)) s) [i..<j])"
proof -
  have "kept evs (Some s) sent = (\<lambda>k. k \<notin> sent \<and> \<not> mute_cc_for_other_track (message (evs ! k)) s)"
    by (rule ext) (simp add: kept_def should_filter_event_iff)
  with dispatch_due_general [OF assms] show ?thesis by simp
qed

theorem C1_witness:
  "dispatch_due demo_timeline (Some 3) {} 5 0
     = ([[0xB2, 49, 127], [0x90, 60, 100], [0xB1, 7, 100]], 4)
   \<and> (0::nat) \<le> length demo_timeline
   \<and> [[0xB2, 49, 127], [0x90, 60, 100], [0xB1, 7, 100]]
       = map (\<lambda>k. message (demo_timeline ! k))
           (filter (\<lambda>k. k \<notin> {} \<and> \<not> mute_cc_for_other_track (message (demo_timeline ! k)) 3) [0..<4])"
proof -
  have run: "dispatch_due demo_timeline (Some 3) {} 5 0
     = ([[0xB2, 49, 127], [0x90, 60, 100], [0xB1, 7, 100]], 4)"
    by (simp add: dispatch_due.simps demo_timeline_def should_filter_event_def)
  have len: "(0::nat) \<le> length demo_timeline" by simp
  from C1_dispatcher_suppresses_exactly_other_track_mutes [OF run len] run len
  show ?thesis by blast
qed

subsection \<open>Lead times of program changes\<close>

lemma pc_demo_events: "pc_events pc_demo = [(0, 1), (1, 1.05), (2, 1.16)]"
  by (simp add: pc_events_def pc_demo_def upt_rec)

lemma pc_demo_leads: "calculate_pc_lead_times 0.2 pc_demo = [(0, 0.8), (1, 1.1), (2, 1.15)]"
  by (simp add: calculate_pc_lead_times_def pc_demo_events)

lemma pc_demo_early: "early_pc_events_of pc_demo = [(0.8, 0), (1.1, 1), (1.15, 2)]"
  unfolding early_pc_events_of_def pc_demo_leads by simp

lemma twice_duration: "playback_duration_of pc_demo twice_args = 2"
  by (simp add: playback_duration_of_def twice_args_def)

text \<open>
  C2 fails on the code. With program changes recorded at 1.0 s, 1.05 s and 1.16 s,
  the second one, 0.05 s after the first, gets an adjusted time (1.1 s) later than
  its recorded time, and the third an adjusted time less than 0.1 s after the
  second's. In the replay the second program change is then sent twice: by the
  regular dispatcher once its recorded time has come (clock at 1.06 s), and again
  by the early dispatcher once its adjusted time has come (clock at 1.12 s). The
  comparisons are strict and hold with a margin, so the rounding of the doubles
  does not change them.
\<close>

theorem C2_close_program_change_late_and_twice:
  "timestamp (pc_demo ! 1) < snd (calculate_pc_lead_times 0.2 pc_demo ! 1)
   \<and> snd (calculate_pc_lead_times 0.2 pc_demo ! 2)
        < snd (calculate_pc_lead_times 0.2 pc_demo ! 1) + 0.1
   \<and> run_replay twice_env pc_demo twice_args
       = Some (before_loop twice_args
               @ [Send [0xC0, 3], Sleep 0.001,
                  Send [0xC0, 4], Sleep 0.001,
                  Send [0xC0, 4], Sleep 0.001,
                  Send [0xC0, 5], Sleep 0.001], None)"
proof -
  have ts: "timestamp (pc_demo ! 1) = 1.05" by (simp add: pc_demo_def)
  have a: "timestamp (pc_demo ! 1) < snd (calculate_pc_lead_times 0.2 pc_demo ! 1)"
    and b: "snd (calculate_pc_lead_times 0.2 pc_demo ! 2)
        < snd (calculate_pc_lead_times 0.2 pc_demo ! 1) + 0.1"
    unfolding pc_demo_leads ts by simp_all
  have c: "run_replay twice_env pc_demo twice_args
       = Some (before_loop twice_args
               @ [Send [0xC0, 3], Sleep 0.001,
                  Send [0xC0, 4], Sleep 0.001,
                  Send [0xC0, 4], Sleep 0.001,
                  Send [0xC0, 5], Sleep 0.001], None)"
    unfolding run_replay_def pc_demo_early twice_duration
    by (simp add: replay_loop.simps twice_env_def twice_args_def
        dispatch_due.simps pc_demo_def)
  from a b c show ?thesis by blast
qed

subsection \<open>Channel pair extraction\<close>

text \<open>
  C5. For every channel offset \<open>offset \<ge> 0\<close> and every buffer \<open>a\<close>,
  \<open>_extract_stereo\<close> raises nothing and returns a two-channel buffer with as
  many frames as \<open>a\<close>: the channels \<open>offset\<close> and \<open>offset + 1\<close> when both
  exist, channel \<open>offset\<close> twice when it is the last one, silence when neither
  exists.
\<close>

theorem C5_extract_stereo:
  assumes "0 \<le> offset"
  shows "\<exists>r. extract_stereo a offset = Inr r
     \<and> ncols r = 2 \<and> wf_audio r \<and> length (frames r) = length (frames a)
     \<and> (offset + 1 < int (ncols a) \<longrightarrow>
          frames r = map (\<lambda>row. [row ! nat offset, row ! nat (offset + 1)]) (frames a))
     \<and> (offset < int (ncols a) \<and> int (ncols a) \<le> offset + 1 \<longrightarrow>
          frames r = map (\<lambda>row. [row ! nat offset, row ! nat offset]) (frames a))
     \<and> (int (ncols a) \<le> offset \<longrightarrow> frames r = replicate (length (frames a)) [0, 0])"
proof -
  consider (pair) "offset + 1 < int (ncols a)"
    | (dup) "offset < int (ncols a)" "int (ncols a) \<le> offset + 1"
    | (silence) "int (ncols a) \<le> offset"
    by linarith
  then show ?thesis
  proof cases
    case pair
    with assms show ?thesis
      by (simp add: extract_stereo_def np_index_def wf_audio_def list_all_iff)
  next
    case dup
    with assms show ?thesis
      by (simp add: extract_stereo_def np_index_def wf_audio_def list_all_iff)
  next
    case silence
    with assms show ?thesis
      by (simp add: extract_stereo_def np_index_def wf_audio_def list_all_iff)
  qed
qed

theorem C5_witness:
  "(0::int) \<le> 0 \<and> (0::int) \<le> 2 \<and> (0::int) \<le> 5
   \<and> extract_stereo audio_demo 0 = Inr \<lparr>ncols = 2, frames = [[0.1, 0.2], [0.4, 0.5]]\<rparr>
   \<and> extract_stereo audio_demo 2 = Inr \<lparr>ncols = 2, frames = [[0.3, 0.3], [0.6, 0.6]]\<rparr>
   \<and> extract_stereo audio_demo 5 = Inr \<lparr>ncols = 2, frames = [[0, 0], [0, 0]]\<rparr>"
proof -
  have n: "ncols audio_demo = 3" and f: "frames audio_demo = [[0.1, 0.2, 0.3], [0.4, 0.5, 0.6]]"
    by (simp_all add: audio_demo_def)
  from C5_extract_stereo [of 0 audio_demo]
  have a: "extract_stereo audio_demo 0 = Inr \<lparr>ncols = 2, frames = [[0.1, 0.2], [0.4, 0.5]]\<rparr>"
    by (auto simp: n f)
  from C5_extract_stereo [of 2 audio_demo]
  have b: "extract_stereo audio_demo 2 = Inr \<lparr>ncols = 2, frames = [[0.3, 0.3], [0.6, 0.6]]\<rparr>"
    by (auto simp: n f)
  from C5_extract_stereo [of 5 audio_demo]
  have c: "extract_stereo audio_demo 5 = Inr \<lparr>ncols = 2, frames = [[0, 0], [0, 0]]\<rparr>"
    by (auto simp: n f)
  from a b c show ?thesis by simp
qed

text \<open>
  The hypothesis \<open>0 \<le> offset\<close> is needed: numpy counts a negative index from
  the end, and raises when it is below \<open>- ncols a\<close>.
\<close>

lemma extract_stereo_negative_offset:
  "extract_stereo audio_demo (- 5) = Inl IndexError"
  by (simp add: extract_stereo_def np_index_def audio_demo_def)

subsection \<open>Timing parameters of the jam pass\<close>

text \<open>Rounding to a double: evaluation, and the error of one rounding.\<close>

lemma binade_eqI:
  assumes "2 powi k \<le> \<bar>x\<bar>" and "\<bar>x\<bar> < 2 powi (k + 1)"
  shows "binade x = k"
proof -
  have pos: "0 < \<bar>x\<bar>"
    using assms(1) by (smt (verit) zero_less_power_int)
  have "(2::real) powr real_of_int k = 2 powi k"
    by (simp add: powr_real_of_int')
  moreover have "(2::real) powr (real_of_int k + 1) = 2 powi (k + 1)"
    using powr_real_of_int' [of "2::real" "k + 1"] by simp
  ultimately have "(2::real) powr real_of_int k = 2 powi k"
      "(2::real) powr (real_of_int k + 1) = 2 powi (k + 1)"
    by simp_all
  with assms have "2 powr real_of_int k \<le> \<bar>x\<bar> \<and> \<bar>x\<bar> < 2 powr (real_of_int k + 1)"
    by simp
  with floor_log_eq_powr_iff [of "\<bar>x\<bar>" 2 k] pos show ?thesis
    by (simp add: binade_def)
qed

lemma fl_eqI:
  assumes "2 powi k \<le> \<bar>x\<bar>" and "\<bar>x\<bar> < 2 powi (k + 1)"
  shows "fl x = of_int (round_half_even (x / 2 powi (k - 52))) * 2 powi (k - 52)"
proof -
  from assms(1) have "0 < \<bar>x\<bar>" by (smt (verit) zero_less_power_int)
  then have "x \<noteq> 0" by simp
  with binade_eqI [OF assms] show ?thesis by (simp add: fl_def Let_def)
qed

lemma round_half_even_near: "\<bar>of_int (round_half_even y) - y\<bar> \<le> 1 / 2"
  unfolding round_half_even_def Let_def by (auto simp: abs_if) linarith+

lemma fl_error: "\<bar>fl x - x\<bar> \<le> 2 powi (binade x - 53)"
proof (cases "x = 0")
  case True
  then show ?thesis by (simp add: fl_def)
next
  case False
  define u :: real where "u = 2 powi (binade x - 52)"
  have u: "0 < u" by (simp add: u_def)
  have half: "2 powi (binade x - 53) = u / 2"
    by (simp add: u_def power_int_diff)
  have "fl x - x = (of_int (round_half_even (x / u)) - x / u) * u"
    using False u by (simp add: fl_def Let_def u_def [symmetric] field_simps)
  then have "\<bar>fl x - x\<bar> = \<bar>of_int (round_half_even (x / u)) - x / u\<bar> * u"
    using u by (simp add: abs_mult)
  also have "\<dots> \<le> (1 / 2) * u"
    using round_half_even_near [of "x / u"] u by (intro mult_right_mono) simp_all
  finally show ?thesis by (simp add: half)
qed

lemma fl_dur: "fl (313344 / 48000) = dur_demo"
  by (subst fl_eqI [where k = 2]) (simp_all add: dur_demo_def round_half_even_def power_int_minus)

lemma fl_onset: "fl (24576 / 48000) = onset_demo"
  by (subst fl_eqI [where k = "- 1"]) (simp_all add: onset_demo_def round_half_even_def power_int_minus)

lemma fl_diff: "fl (dur_demo - onset_demo) = 6773413839565226 / 2 ^ 50"
  by (subst fl_eqI [where k = 2])
     (simp_all add: dur_demo_def onset_demo_def round_half_even_def power_int_minus)

lemma fl_sum: "fl (onset_demo + 6773413839565226 / 2 ^ 50) = 7349874591868650 / 2 ^ 50"
  by (subst fl_eqI [where k = 2])
     (simp_all add: dur_demo_def onset_demo_def round_half_even_def power_int_minus)


lemma fl_nine: "fl 9 = 9"
  by (subst fl_eqI [where k = 3]) (simp_all add: round_half_even_def power_int_minus)

text \<open>
  C6 as stated fails in its last part. With no start captured from MIDI, a capture
  of 313344 samples at 48000 Hz and the onset at sample 24576, the start offset is
  the double nearest 0.512 and the content duration the double nearest the
  difference; their sum is not the capture duration, neither as a real number nor
  after the rounding of the addition (it is 6.5280000000000005 against 6.528).
\<close>

theorem C6_counterexample:
  "dur_demo = fl (313344 / 48000) \<and> onset_demo = fl (24576 / 48000)
   \<and> md_ot_start_offset (stop_jam_recording silent_jam dur_demo onset_demo md_demo) = onset_demo
   \<and> md_ot_content_duration (stop_jam_recording silent_jam dur_demo onset_demo md_demo)
        = 6773413839565226 / 2 ^ 50
   \<and> duration_seconds (stop_jam_recording silent_jam dur_demo onset_demo md_demo) = dur_demo
   \<and> md_ot_start_offset (stop_jam_recording silent_jam dur_demo onset_demo md_demo)
        + md_ot_content_duration (stop_jam_recording silent_jam dur_demo onset_demo md_demo)
       \<noteq> duration_seconds (stop_jam_recording silent_jam dur_demo onset_demo md_demo)
   \<and> fl (md_ot_start_offset (stop_jam_recording silent_jam dur_demo onset_demo md_demo)
        + md_ot_content_duration (stop_jam_recording silent_jam dur_demo onset_demo md_demo))
       \<noteq> duration_seconds (stop_jam_recording silent_jam dur_demo onset_demo md_demo)"
proof -
  have st: "md_ot_start_offset (stop_jam_recording silent_jam dur_demo onset_demo md_demo)
      = onset_demo"
    and ct: "md_ot_content_duration (stop_jam_recording silent_jam dur_demo onset_demo md_demo)
      = 6773413839565226 / 2 ^ 50"
    and du: "duration_seconds (stop_jam_recording silent_jam dur_demo onset_demo md_demo)
      = dur_demo"
    by (simp_all add: stop_jam_recording_def silent_jam_def Let_def fsub_def fl_diff)
  have ne: "onset_demo + 6773413839565226 / 2 ^ 50 \<noteq> dur_demo"
    by (simp add: onset_demo_def dur_demo_def)
  have ne': "fl (onset_demo + 6773413839565226 / 2 ^ 50) \<noteq> dur_demo"
    unfolding fl_sum by (simp add: dur_demo_def)
  show ?thesis
    unfolding st ct du using fl_dur fl_onset ne ne' by simp
qed

text \<open>
  C6, amended. After the jam pass is stopped, the start offset is the start time
  captured from MIDI when it is positive and the audio onset otherwise; the content
  duration is the difference of doubles stop minus start when the captured stop is
  after the captured start, and the difference of doubles capture duration minus
  start offset otherwise. In this case start offset and content duration add up to
  the capture duration up to the rounding of that one subtraction, at most half a
  unit in the last place of the difference.
\<close>

theorem C6_timing_parameters:
  "md_ot_start_offset (stop_jam_recording h audio_duration audio_onset md)
     = (if ot_start_offset h > 0 then ot_start_offset h else audio_onset)
   \<and> md_ot_content_duration (stop_jam_recording h audio_duration audio_onset md)
     = (if ot_stop_time h > ot_start_offset h then fl (ot_stop_time h - ot_start_offset h)
        else fl (audio_duration
                  - md_ot_start_offset (stop_jam_recording h audio_duration audio_onset md)))
   \<and> duration_seconds (stop_jam_recording h audio_duration audio_onset md) = audio_duration
   \<and> (\<not> ot_stop_time h > ot_start_offset h \<longrightarrow>
        \<bar>md_ot_start_offset (stop_jam_recording h audio_duration audio_onset md)
          + md_ot_content_duration (stop_jam_recording h audio_duration audio_onset md)
          - duration_seconds (stop_jam_recording h audio_duration audio_onset md)\<bar>
        \<le> 2 powi (binade (audio_duration
               - md_ot_start_offset (stop_jam_recording h audio_duration audio_onset md)) - 53))"
proof -
  define s where "s = (if ot_start_offset h > 0 then ot_start_offset h else audio_onset)"
  have st: "md_ot_start_offset (stop_jam_recording h audio_duration audio_onset md) = s"
    and du: "duration_seconds (stop_jam_recording h audio_duration audio_onset md) = audio_duration"
    and ct: "md_ot_content_duration (stop_jam_recording h audio_duration audio_onset md)
      = (if ot_stop_time h > ot_start_offset h then fl (ot_stop_time h - ot_start_offset h)
         else fl (audio_duration - s))"
    by (simp_all add: stop_jam_recording_def Let_def fsub_def s_def)
  have "\<bar>s + fl (audio_duration - s) - audio_duration\<bar>
      = \<bar>fl (audio_duration - s) - (audio_duration - s)\<bar>"
    by (simp add: algebra_simps)
  also have "\<dots> \<le> 2 powi (binade (audio_duration - s) - 53)" by (rule fl_error)
  finally have bound: "\<bar>s + fl (audio_duration - s) - audio_duration\<bar>
      \<le> 2 powi (binade (audio_duration - s) - 53)" .
  show ?thesis
    unfolding st du ct using bound by (simp add: s_def)
qed

theorem C6_witness:
  "\<not> ot_stop_time jam_demo > ot_start_offset jam_demo
   \<and> md_ot_start_offset (stop_jam_recording jam_demo 10 0.5 md_demo) = 1
   \<and> md_ot_content_duration (stop_jam_recording jam_demo 10 0.5 md_demo) = 9
   \<and> \<bar>md_ot_start_offset (stop_jam_recording jam_demo 10 0.5 md_demo)
        + md_ot_content_duration (stop_jam_recording jam_demo 10 0.5 md_demo)
        - duration_seconds (stop_jam_recording jam_demo 10 0.5 md_demo)\<bar>
       \<le> 2 powi (binade (10
               - md_ot_start_offset (stop_jam_recording jam_demo 10 0.5 md_demo)) - 53)"
proof -
  have h: "\<not> ot_stop_time jam_demo > ot_start_offset jam_demo"
    and st: "ot_start_offset jam_demo = 1"
    by (simp_all add: jam_demo_def)
  note inst = C6_timing_parameters [of jam_demo 10 "0.5" md_demo]
  from inst st have a: "md_ot_start_offset (stop_jam_recording jam_demo 10 0.5 md_demo) = 1"
    by simp
  from inst h a have b: "md_ot_content_duration (stop_jam_recording jam_demo 10 0.5 md_demo) = 9"
    by (simp add: fl_nine)
  from inst h have c: "\<bar>md_ot_start_offset (stop_jam_recording jam_demo 10 0.5 md_demo)
        + md_ot_content_duration (stop_jam_recording jam_demo 10 0.5 md_demo)
        - duration_seconds (stop_jam_recording jam_demo 10 0.5 md_demo)\<bar>
       \<le> 2 powi (binade (10
               - md_ot_start_offset (stop_jam_recording jam_demo 10 0.5 md_demo)) - 53)"
    by blast
  from h a b c show ?thesis by blast
qed

subsection \<open>Playback and capture without an output port\<close>

text \<open>
  C8. With no MIDI output port open, \<open>start_playback\<close> calls the completion
  callback (when one was passed) in the calling thread and returns: it sends no
  message, starts no thread and leaves the handler as it was. \<open>capture_stem\<close>
  returns \<open>False\<close> before it asks anything of the audio handler.
\<close>

theorem C8_no_output_port:
  assumes "\<not> midi_out h"
  shows "start_playback h args = ((if on_complete args then [OnComplete] else []), None, h)
     \<and> (\<forall>m. Send m \<notin> set (fst (start_playback h args)))
     \<and> capture_stem h md audio_started saved track_num = (False, [])"
  using assms by (simp add: start_playback_def capture_stem_def)

theorem C8_witness:
  "\<not> midi_out no_port_demo
   \<and> start_playback no_port_demo args_demo = ([OnComplete], None, no_port_demo)
   \<and> capture_stem no_port_demo md_demo True True 3 = (False, [])"
proof -
  have h: "\<not> midi_out no_port_demo" by (simp add: no_port_demo_def)
  have oc: "on_complete args_demo" by (simp add: args_demo_def)
  from C8_no_output_port [OF h, of args_demo md_demo True True 3] h oc show ?thesis by simp
qed

subsection \<open>Level computation\<close>

lemma log10_floor: "log 10 (1 / 10 ^ 10) = - 10"
proof -
  have "log 10 (1 / 10 ^ 10) = - log 10 ((10::real) ^ 10)" by (rule log_recip)
  also have "log 10 ((10::real) ^ 10) = real 10" by (rule log_pow_cancel) simp_all
  finally show ?thesis by simp
qed

lemma level_of_rms_floor: "r \<le> 1 / 10 ^ 10 \<Longrightarrow> level_of_rms r = - 200"
proof -
  assume "r \<le> 1 / 10 ^ 10"
  then have m: "max r (1 / 10 ^ 10) = 1 / 10 ^ 10" by (rule max_absorb2)
  show ?thesis unfolding level_of_rms_def m log10_floor by simp
qed

lemma level_of_rms_mono: "r1 \<le> r2 \<Longrightarrow> level_of_rms r1 \<le> level_of_rms r2"
proof -
  assume le: "r1 \<le> r2"
  have pos: "0 < max r (1 / 10 ^ 10)" for r :: real
    by (simp add: less_max_iff_disj)
  from le have "max r1 (1 / 10 ^ 10) \<le> max r2 (1 / 10 ^ 10)" by (simp add: max.mono)
  with pos [of r1] pos [of r2]
  have "log 10 (max r1 (1 / 10 ^ 10)) \<le> log 10 (max r2 (1 / 10 ^ 10))"
    by (simp only: log_le_cancel_iff [of 10] one_less_numeral_iff semiring_norm)
  then show ?thesis by (simp add: level_of_rms_def)
qed

lemma level_of_rms_one: "level_of_rms 1 = 0"
  by (simp add: level_of_rms_def max_def)

lemma sum_squares_le:
  "\<forall>x \<in> set data. \<bar>x\<bar> \<le> 1 \<Longrightarrow> sum_list (map (\<lambda>x. x\<^sup>2) data) \<le> real (length data)"
proof (induction data)
  case Nil
  then show ?case by simp
next
  case (Cons x xs)
  then have "\<bar>x\<bar> \<le> 1" by simp
  then have "x\<^sup>2 \<le> 1" by (simp add: abs_square_le_1)
  with Cons show ?case by simp
qed

lemma rms_le_one:
  assumes "data \<noteq> []" and "\<forall>x \<in> set data. \<bar>x\<bar> \<le> (1::real)"
  shows "rms data \<le> 1"
proof -
  from assms(1) have "0 < real (length data)" by simp
  with sum_squares_le [OF assms(2)]
  have "sum_list (map (\<lambda>x. x\<^sup>2) data) / real (length data) \<le> 1" by simp
  then show ?thesis by (simp add: rms_def)
qed

lemma rms_zero:
  assumes "\<forall>x \<in> set data. x = (0::real)"
  shows "rms data = 0"
proof -
  from assms have "sum_list (map (\<lambda>x. x\<^sup>2) data) = 0"
    by (induction data) simp_all
  then show ?thesis by (simp add: rms_def)
qed

text \<open>
  C4 as stated fails. The floor \<open>1e-10\<close> under the logarithm is a floor of
  -200 dB, not of -60 dB: a block of zeros has level -200 dB, below -60 dB. (A block
  with no frame at all, which the audio driver does not deliver, gives NaN.)
\<close>

theorem C4_counterexample:
  "calc_db [0, 0] = Some (- 200) \<and> \<not> (- 60 \<le> (- 200 :: real)) \<and> calc_db [] = None"
proof -
  have "rms [0, 0] = 0" by (rule rms_zero) simp
  then have "calc_db [0, 0] = Some (- 200)"
    by (simp add: calc_db_def level_of_rms_floor)
  then show ?thesis by (simp add: calc_db_def)
qed

text \<open>
  C4, amended. The level \<open>20 * log10 (max rms 1e-10)\<close> is monotonically
  non-decreasing in the RMS; for every block with at least one sample and amplitudes
  in \<open>[-1, 1]\<close> it is a number in \<open>[-200, 0]\<close> dB; a block of zeros yields
  exactly -200 dB.
\<close>

theorem C4_level_bounds:
  "(r1 \<le> r2 \<longrightarrow> level_of_rms r1 \<le> level_of_rms r2)
   \<and> (data \<noteq> [] \<and> (\<forall>x \<in> set data. \<bar>x\<bar> \<le> 1) \<longrightarrow>
        calc_db data = Some (level_of_rms (rms data))
        \<and> - 200 \<le> level_of_rms (rms data) \<and> level_of_rms (rms data) \<le> 0)
   \<and> (data \<noteq> [] \<and> (\<forall>x \<in> set data. x = 0) \<longrightarrow> calc_db data = Some (- 200))"
proof (intro conjI impI)
  assume "r1 \<le> r2"
  then show "level_of_rms r1 \<le> level_of_rms r2" by (rule level_of_rms_mono)
next
  assume h: "data \<noteq> [] \<and> (\<forall>x \<in> set data. \<bar>x\<bar> \<le> 1)"
  then show "calc_db data = Some (level_of_rms (rms data))" by (simp add: calc_db_def)
  have "level_of_rms (1 / 10 ^ 10) \<le> level_of_rms (max (rms data) (1 / 10 ^ 10))"
    by (rule level_of_rms_mono) simp
  moreover have "level_of_rms (max (rms data) (1 / 10 ^ 10)) = level_of_rms (rms data)"
    by (simp add: level_of_rms_def)
  ultimately show "- 200 \<le> level_of_rms (rms data)"
    by (simp add: level_of_rms_floor)
  from h have "rms data \<le> 1" by (simp add: rms_le_one)
  then have "level_of_rms (rms data) \<le> level_of_rms 1" by (rule level_of_rms_mono)
  then show "level_of_rms (rms data) \<le> 0" by (simp add: level_of_rms_one)
next
  assume h: "data \<noteq> [] \<and> (\<forall>x \<in> set data. x = 0)"
  then have "rms data = 0" by (simp add: rms_zero)
  with h show "calc_db data = Some (- 200)"
    by (simp add: calc_db_def level_of_rms_floor)
qed

theorem C4_witness:
  "(0::real) \<le> 1 \<and> level_of_rms 0 \<le> level_of_rms 1
   \<and> calc_db [1, - 1] = Some (level_of_rms (rms [1, - 1]))
   \<and> - 200 \<le> level_of_rms (rms [1, - 1]) \<and> level_of_rms (rms [1, - 1]) \<le> 0
   \<and> calc_db [0, 0, 0] = Some (- 200)"
proof -
  have a: "(0::real) \<le> 1" by simp
  have b: "[1, - 1] \<noteq> [] \<and> (\<forall>x \<in> set [1, - 1 :: real]. \<bar>x\<bar> \<le> 1)" by simp
  have c: "[0, 0, 0] \<noteq> [] \<and> (\<forall>x \<in> set [0, 0, 0 :: real]. x = 0)" by simp
  from C4_level_bounds [of 0 1 "[1, - 1]"] a b
  have 1: "level_of_rms 0 \<le> level_of_rms 1"
    and 2: "calc_db [1, - 1] = Some (level_of_rms (rms [1, - 1]))
      \<and> - 200 \<le> level_of_rms (rms [1, - 1]) \<and> level_of_rms (rms [1, - 1]) \<le> 0"
    by blast+
  from C4_level_bounds [of 0 1 "[0, 0, 0]"] c
  have 3: "calc_db [0, 0, 0] = Some (- 200)" by blast
  from a 1 2 3 show ?thesis by blast
qed

subsection \<open>Start and stop detection\<close>

lemma recording_feed [simp]: "recording (feed h x) = recording h"
  by (auto simp: feed_def midi_callback_def Let_def split: list.splits)

lemma start_not_stop: "start_indicator m \<Longrightarrow> \<not> stop_indicator m"
  by (auto simp: start_indicator_def stop_indicator_def)

lemma ot_start_offset_feed:
  "ot_start_offset (feed h (m, t)) =
     (if recording h \<and> start_indicator m \<and> ot_start_offset h = 0 then t else ot_start_offset h)"
  by (cases m) (auto simp: feed_def midi_callback_def Let_def start_indicator_def)

lemma ot_stop_time_feed:
  "ot_stop_time (feed h (m, t)) =
     (if recording h \<and> stop_indicator m \<and> ot_start_offset h > 0 \<and> ot_stop_time h = 0
      then t else ot_stop_time h)"
  by (cases m) (auto simp: feed_def midi_callback_def Let_def stop_indicator_def)

lemma record_stream_Cons: "record_stream h (x # xs) = record_stream (feed h x) xs"
  by (simp add: record_stream_def)

lemma record_stream_Nil: "record_stream h [] = h"
  by (simp add: record_stream_def)

lemma first_time_Cons:
  "first_time P ((m, t) # xs) = (if P m then t else first_time P xs)"
  by (simp add: first_time_def)

lemma first_time_Nil: "first_time P [] = 0"
  by (simp add: first_time_def)

lemma record_stream_captured:
  "ot_start_offset h \<noteq> 0 \<Longrightarrow> ot_stop_time h \<noteq> 0 \<Longrightarrow>
   ot_start_offset (record_stream h stream) = ot_start_offset h
   \<and> ot_stop_time (record_stream h stream) = ot_stop_time h"
proof (induction stream arbitrary: h)
  case Nil
  then show ?case by (simp add: record_stream_Nil)
next
  case (Cons x xs)
  obtain m t where x: "x = (m, t)" by (cases x)
  from Cons.prems have "ot_start_offset (feed h x) = ot_start_offset h"
    and "ot_stop_time (feed h x) = ot_stop_time h"
    by (simp_all add: x ot_start_offset_feed ot_stop_time_feed)
  with Cons.IH [of "feed h x"] Cons.prems show ?case
    by (simp add: record_stream_Cons)
qed

lemma record_stream_started:
  "recording h \<Longrightarrow> 0 < ot_start_offset h \<Longrightarrow> ot_stop_time h = 0 \<Longrightarrow>
   \<forall>x \<in> set stream. 0 < snd x \<Longrightarrow>
   ot_start_offset (record_stream h stream) = ot_start_offset h
   \<and> ot_stop_time (record_stream h stream) = first_time stop_indicator stream"
proof (induction stream arbitrary: h)
  case Nil
  then show ?case by (simp add: record_stream_Nil first_time_Nil)
next
  case (Cons x xs)
  obtain m t where x: "x = (m, t)" by (cases x)
  from Cons.prems have t: "0 < t" by (simp add: x)
  from Cons.prems have st: "ot_start_offset (feed h x) = ot_start_offset h"
    by (simp add: x ot_start_offset_feed)
  show ?case
  proof (cases "stop_indicator m")
    case True
    with Cons.prems have "ot_stop_time (feed h x) = t"
      by (simp add: x ot_stop_time_feed)
    with st t Cons.prems record_stream_captured [of "feed h x" xs] True show ?thesis
      by (simp add: record_stream_Cons x first_time_Cons)
  next
    case False
    with Cons.prems have "ot_stop_time (feed h x) = 0"
      by (simp add: x ot_stop_time_feed)
    with st Cons.prems Cons.IH [of "feed h x"] False show ?thesis
      by (simp add: record_stream_Cons x first_time_Cons)
  qed
qed

lemma record_stream_fresh:
  "recording h \<Longrightarrow> ot_start_offset h = 0 \<Longrightarrow> ot_stop_time h = 0 \<Longrightarrow>
   \<forall>x \<in> set stream. 0 < snd x \<Longrightarrow>
   ot_start_offset (record_stream h stream) = first_time start_indicator stream
   \<and> ot_stop_time (record_stream h stream)
       = first_time stop_indicator (dropWhile (\<lambda>x. \<not> start_indicator (fst x)) stream)"
proof (induction stream arbitrary: h)
  case Nil
  then show ?case by (simp add: record_stream_Nil first_time_Nil)
next
  case (Cons x xs)
  obtain m t where x: "x = (m, t)" by (cases x)
  from Cons.prems have t: "0 < t" by (simp add: x)
  from Cons.prems have sp: "ot_stop_time (feed h x) = 0"
    by (simp add: x ot_stop_time_feed)
  show ?case
  proof (cases "start_indicator m")
    case True
    with Cons.prems have "ot_start_offset (feed h x) = t"
      by (simp add: x ot_start_offset_feed)
    with sp t Cons.prems record_stream_started [of "feed h x" xs] True start_not_stop [OF True]
    show ?thesis
      by (simp add: record_stream_Cons x first_time_Cons)
  next
    case False
    with Cons.prems have "ot_start_offset (feed h x) = 0"
      by (simp add: x ot_start_offset_feed)
    with sp Cons.prems Cons.IH [of "feed h x"] False show ?thesis
      by (simp add: record_stream_Cons x first_time_Cons)
  qed
qed

text \<open>
  C3, amended. For a recording with positive timestamps, the captured device start
  is the timestamp of the first message that is a transport start (\<open>0xFA\<close>) or
  a note-on on any channel, and the captured device stop is the timestamp of the
  first transport stop (\<open>0xFC\<close>) after that message; each is 0 when there is
  no such message.
\<close>

theorem C3_start_stop_detection:
  assumes "\<forall>x \<in> set stream. 0 < snd x"
  shows "ot_start_offset (record_stream (start_recording h) stream)
           = first_time start_indicator stream
     \<and> ot_stop_time (record_stream (start_recording h) stream)
           = first_time stop_indicator (dropWhile (\<lambda>x. \<not> start_indicator (fst x)) stream)"
  using record_stream_fresh [of "start_recording h" stream] assms
  by (simp add: start_recording_def)

text \<open>
  C3 as stated fails: a note-on on channel 5 at 1.5 s, before the transport start
  at 2 s, is taken as the device start, where the specification's indicator (a
  note-on on channel 1 only) gives 2 s.
\<close>

theorem C3_counterexample:
  "ot_start_offset (record_stream (start_recording idle_handler) note_on_demo) = 1.5
   \<and> first_time spec_start_indicator note_on_demo = 2"
proof -
  have "ot_start_offset (record_stream (start_recording idle_handler) note_on_demo) = 1.5"
    by (simp add: note_on_demo_def record_stream_Cons record_stream_Nil ot_start_offset_feed
        start_recording_def start_indicator_def)
  moreover have "first_time spec_start_indicator note_on_demo = 2"
    by (simp add: note_on_demo_def first_time_Cons spec_start_indicator_def)
  ultimately show ?thesis by simp
qed

theorem C3_witness:
  "list_all (\<lambda>x. 0 < snd x) note_on_demo
   \<and> ot_start_offset (record_stream (start_recording idle_handler) note_on_demo) = 1.5
   \<and> ot_stop_time (record_stream (start_recording idle_handler) note_on_demo) = 9"
proof -
  have pos: "\<forall>x \<in> set note_on_demo. 0 < snd x" by (simp add: note_on_demo_def)
  have a: "first_time start_indicator note_on_demo = 1.5"
    by (simp add: note_on_demo_def first_time_Cons start_indicator_def)
  have b: "first_time stop_indicator (dropWhile (\<lambda>x. \<not> start_indicator (fst x)) note_on_demo) = 9"
    by (simp add: note_on_demo_def first_time_Cons start_indicator_def stop_indicator_def)
  from pos have all: "list_all (\<lambda>x. 0 < snd x) note_on_demo" by (simp add: list_all_iff)
  from C3_start_stop_detection [OF pos, of idle_handler] a b all show ?thesis by simp
qed


subsection \<open>Track activity\<close>

lemma foldl_activity:
  "foldl (\<lambda>activity event.
            if channel event < 8 then activity(channel event + 1 \<mapsto> True) else activity) act evs n
   = (if \<exists>e \<in> set evs. channel e < 8 \<and> channel e + 1 = n then Some True else act n)"
  by (induction evs arbitrary: act) auto

lemma get_track_activity_stored:
  "get_track_activity h n =
     (if \<exists>e \<in> set (events h). channel e < 8 \<and> channel e + 1 = n then Some True
      else if 1 \<le> n \<and> n \<le> 8 then Some False else None)"
  by (simp add: get_track_activity_def foldl_activity map_of_map_restrict restrict_map_def)

lemma events_one_message:
  "events (record_stream (start_recording idle_handler) [(status # rest, t)])
     = [\<lparr>timestamp = t,
         channel = (if status AND 0xF0 = 0xC0 then (status AND 0x0F) + 1
                    else if status < 0xF0 then status AND 0x0F else 0),
         message = status # rest\<rparr>]"
  by (simp add: record_stream_Cons record_stream_Nil feed_def midi_callback_def
      start_recording_def Let_def)

text \<open>
  C7 fails on the code. The callback stores a program change under its 1-indexed
  channel and a system message under channel 0, so a program change on track 1's
  channel marks track 2 and not track 1, a program change on track 8's channel
  marks no track, and a transport start marks track 1.
\<close>

theorem C7_program_change_marks_next_track:
  "get_track_activity (record_stream (start_recording idle_handler) [([0xC0, 5], 1)]) 1 = Some False
   \<and> get_track_activity (record_stream (start_recording idle_handler) [([0xC0, 5], 1)]) 2 = Some True
   \<and> get_track_activity (record_stream (start_recording idle_handler) [([0xC7, 5], 1)]) 8 = Some False
   \<and> get_track_activity (record_stream (start_recording idle_handler) [([0xFA], 1)]) 1 = Some True"
  by (simp add: get_track_activity_stored events_one_message)


lemma events_feed:
  "recording h \<Longrightarrow> events (feed h (m, t)) =
     events h @ (if m = [] then []
                 else [\<lparr>timestamp = t, channel = stored_channel (hd m), message = m\<rparr>])"
  by (cases m) (auto simp: feed_def midi_callback_def Let_def stored_channel_def)

lemma events_record_stream:
  "recording h \<Longrightarrow> events (record_stream h stream) =
     events h @ map (\<lambda>x. \<lparr>timestamp = snd x, channel = stored_channel (hd (fst x)), message = fst x\<rparr>)
                  (filter (\<lambda>x. fst x \<noteq> []) stream)"
proof (induction stream arbitrary: h)
  case Nil
  then show ?case by (simp add: record_stream_Nil)
next
  case (Cons x xs)
  obtain m t where x: "x = (m, t)" by (cases x)
  from Cons.prems have "recording (feed h x)" by simp
  from Cons.IH [OF this] Cons.prems show ?case
    by (simp add: record_stream_Cons x events_feed)
qed

lemma get_track_activity_recorded:
  "get_track_activity (record_stream (start_recording h) stream) n =
     (if \<exists>x \<in> set stream. fst x \<noteq> [] \<and> stored_channel (hd (fst x)) < 8
            \<and> stored_channel (hd (fst x)) + 1 = n
      then Some True
      else if 1 \<le> n \<and> n \<le> 8 then Some False else None)"
proof -
  have "recording (start_recording h)" and "events (start_recording h) = []"
    by (simp_all add: start_recording_def)
  then have "events (record_stream (start_recording h) stream) =
     map (\<lambda>x. \<lparr>timestamp = snd x, channel = stored_channel (hd (fst x)), message = fst x\<rparr>)
       (filter (\<lambda>x. fst x \<noteq> []) stream)"
    by (simp add: events_record_stream)
  then have "(\<exists>e \<in> set (events (record_stream (start_recording h) stream)).
            channel e < 8 \<and> channel e + 1 = n)
      \<longleftrightarrow> (\<exists>x \<in> set stream. fst x \<noteq> [] \<and> stored_channel (hd (fst x)) < 8
            \<and> stored_channel (hd (fst x)) + 1 = n)"
    by force
  then show ?thesis
    by (simp only: get_track_activity_stored)
qed

subsection \<open>The playback thread\<close>

lemma replay_loop_extends:
  assumes "replay_loop env evs isolated early start pd n i sent trace = Some y"
  shows "\<exists>ext. fst y = trace @ ext \<and> OnComplete \<notin> set ext"
proof (rule replay_loop.raw_induct
    [where P = "\<lambda>env evs isolated early start pd n i sent trace y.
                  \<exists>ext. fst y = trace @ ext \<and> OnComplete \<notin> set ext",
     OF _ assms], goal_cases)
  case (1 loop env evs isolated early start pd n i sent trace y)
  note IH = "1"(1) and eq = "1"(2)
  show ?case
  proof (cases "stop_at_loop env n \<or> pd \<le> time_at_loop env n - start")
    case True
    with eq have "fst y = trace @ []" by (auto simp: Let_def split: if_splits)
    then show ?thesis by (intro exI [of _ "[]"]) simp
  next
    case False
    obtain ms1 sent' r where de: "dispatch_early evs (time_at_loop env n - start) early sent = (ms1, sent', r)"
      by (cases "dispatch_early evs (time_at_loop env n - start) early sent")
    show ?thesis
    proof (cases r)
      case (Some e)
      with False de eq have "fst y = trace @ map Send ms1"
        by (auto simp: Let_def)
      then show ?thesis by (intro exI [of _ "map Send ms1"]) auto
    next
      case None
      obtain ms2 j where dd: "dispatch_due evs isolated sent' (time_at_loop env n - start) i = (ms2, j)"
        by (cases "dispatch_due evs isolated sent' (time_at_loop env n - start) i")
      from None False de dd eq
      have "loop env evs isolated early start pd (Suc n) j sent'
              (trace @ map Send ms1 @ map Send ms2 @ [Sleep 0.001]) = Some y"
        by (auto simp: Let_def)
      from IH [OF this] obtain ext where
        "fst y = (trace @ map Send ms1 @ map Send ms2 @ [Sleep 0.001]) @ ext" "OnComplete \<notin> set ext"
        by blast
      then show ?thesis
        by (intro exI [of _ "map Send ms1 @ map Send ms2 @ [Sleep 0.001] @ ext"]) auto
    qed
  qed
qed

lemma dispatch_early_no_error:
  "\<forall>x \<in> set early. snd x < length evs \<and> 2 \<le> length (message (evs ! snd x)) \<Longrightarrow>
   snd (snd (dispatch_early evs cur early sent)) = None"
proof (induction early arbitrary: sent)
  case Nil
  then show ?case by simp
next
  case (Cons x xs)
  obtain adj idx where x: "x = (adj, idx)" by (cases x)
  from Cons.prems have ok: "idx < length evs" "2 \<le> length (message (evs ! idx))"
    by (simp_all add: x)
  from Cons.prems have rest: "\<forall>x \<in> set xs. snd x < length evs \<and> 2 \<le> length (message (evs ! snd x))"
    by simp
  from Cons.IH [OF rest, of "insert idx sent"] Cons.IH [OF rest, of sent] ok show ?case
    by (simp add: x Let_def case_prod_beta)
qed

lemma map_fst_lead_loop: "map fst (lead_loop lf prev xs) = map fst xs"
  by (induction xs arbitrary: prev) (auto simp: Let_def)

lemma pc_events_index:
  "(i, t) \<in> set (pc_events evs) \<Longrightarrow>
   i < length evs \<and> 1 \<le> length (message (evs ! i)) \<and> (message (evs ! i) ! 0) AND 0xF0 = 0xC0"
  by (auto simp: pc_events_def in_set_zip)

lemma early_pc_events_of_ok:
  assumes "wf_pcs evs"
  shows "\<forall>x \<in> set (early_pc_events_of evs). snd x < length evs \<and> 2 \<le> length (message (evs ! snd x))"
proof
  fix x assume "x \<in> set (early_pc_events_of evs)"
  then have "snd x \<in> fst ` set (calculate_pc_lead_times 0.2 evs)"
    by (force simp: early_pc_events_of_def)
  also have "fst ` set (calculate_pc_lead_times 0.2 evs) = set (map fst (pc_events evs))"
    by (simp add: calculate_pc_lead_times_def map_fst_lead_loop flip: set_map)
  finally obtain t where "(snd x, t) \<in> set (pc_events evs)" by auto
  from pc_events_index [OF this] have i: "snd x < length evs"
    and pc: "1 \<le> length (message (evs ! snd x)) \<and> (message (evs ! snd x) ! 0) AND 0xF0 = 0xC0"
    by simp_all
  from i have "evs ! snd x \<in> set evs" by simp
  with assms pc have "2 \<le> length (message (evs ! snd x))"
    unfolding wf_pcs_def by blast
  with i show "snd x < length evs \<and> 2 \<le> length (message (evs ! snd x))" by simp
qed

lemma replay_loop_exits:
  assumes ok: "\<forall>x \<in> set early. snd x < length evs \<and> 2 \<le> length (message (evs ! snd x))"
    and ex: "stop_at_loop env k \<or> pd \<le> time_at_loop env k - start"
  shows "n \<le> k \<Longrightarrow>
         \<exists>tr. replay_loop env evs isolated early start pd n i sent trace = Some (tr, None)"
proof (induction "k - n" arbitrary: n i sent trace)
  case 0
  then have "n = k" by simp
  with ex show ?case
    by (subst replay_loop.simps) (auto simp: Let_def)
next
  case (Suc d)
  show ?case
  proof (cases "stop_at_loop env n \<or> pd \<le> time_at_loop env n - start")
    case True
    then show ?thesis by (subst replay_loop.simps) (auto simp: Let_def)
  next
    case False
    obtain ms1 sent' r where de: "dispatch_early evs (time_at_loop env n - start) early sent = (ms1, sent', r)"
      by (cases "dispatch_early evs (time_at_loop env n - start) early sent")
    with dispatch_early_no_error [OF ok, of "time_at_loop env n - start" sent]
    have r: "r = None" by simp
    obtain ms2 j where dd: "dispatch_due evs isolated sent' (time_at_loop env n - start) i = (ms2, j)"
      by (cases "dispatch_due evs isolated sent' (time_at_loop env n - start) i")
    from Suc.hyps(2) Suc.prems have "d = k - Suc n" "Suc n \<le> k" by simp_all
    from Suc.hyps(1) [OF this, of j sent' "trace @ map Send ms1 @ map Send ms2 @ [Sleep 0.001]"]
    obtain tr where "replay_loop env evs isolated early start pd (Suc n) j sent'
        (trace @ map Send ms1 @ map Send ms2 @ [Sleep 0.001]) = Some (tr, None)"
      by blast
    with False de r dd show ?thesis
      by (subst replay_loop.simps) (auto simp: Let_def)
  qed
qed


lemma OnComplete_notin_parts:
  "OnComplete \<notin> set (send_ot_stop c)" "OnComplete \<notin> set (send_ot_start c)"
  "OnComplete \<notin> set mute_all_tracks" "OnComplete \<notin> set unmute_all_tracks"
  "OnComplete \<notin> set (send_isolation_mutes s)"
  by (auto simp: send_ot_stop_def send_ot_start_def mute_all_tracks_def unmute_all_tracks_def
      send_isolation_mutes_def)

lemma OnComplete_notin_before_loop: "OnComplete \<notin> set (before_loop args)"
  by (auto simp: before_loop_def Let_def OnComplete_notin_parts split: option.splits)

lemma OnComplete_notin_cleanup: "OnComplete \<notin> set (isolation_cleanup args)"
  by (auto simp: isolation_cleanup_def OnComplete_notin_parts split: option.splits)

lemma after_loop_parts:
  "after_loop env args =
     send_ot_stop (prog_change_channel args - 1)
     @ (if tail_time args > 0 \<and> \<not> stop_at_tail env then [Sleep (tail_time args)] else [])
     @ (if stereo_duration args > 0 \<and> on_ready args \<and> time_ready env \<noteq> 0 \<and> \<not> stop_at_match env
           \<and> stereo_duration args - (time_at_match env - time_ready env) > 0
        then [Sleep (stereo_duration args - (time_at_match env - time_ready env))] else [])
     @ (if on_complete args \<and> \<not> stop_at_done env then [OnComplete] else [])
     @ isolation_cleanup args"
  by (simp add: after_loop_def isolation_cleanup_def Let_def)

lemma count_after_loop:
  "count_list (after_loop env args) OnComplete
     = (if on_complete args \<and> \<not> stop_at_done env then 1 else 0)"
  by (simp add: after_loop_parts OnComplete_notin_parts OnComplete_notin_cleanup)

lemma run_replay_exits:
  assumes "wf_pcs evs" and "loop_exit_at env evs args k"
  shows "\<exists>ext. run_replay env evs args = Some (before_loop args @ ext, None)
           \<and> OnComplete \<notin> set ext"
proof -
  from assms(2) have ex: "stop_at_loop env k
      \<or> playback_duration_of evs args \<le> time_at_loop env k - (time_start env - pre_roll args)"
    by (simp add: loop_exit_at_def)
  from replay_loop_exits [OF early_pc_events_of_ok [OF assms(1)] ex, of 0]
  obtain tr where tr: "run_replay env evs args = Some (tr, None)"
    unfolding run_replay_def by blast
  then have "replay_loop env evs (isolated_track args) (early_pc_events_of evs)
       (time_start env - pre_roll args) (playback_duration_of evs args)
       0 0 {} (before_loop args) = Some (tr, None)"
    by (simp add: run_replay_def)
  from replay_loop_extends [OF this] tr show ?thesis by auto
qed

lemma upto_1_8: "[1..8] = [1, 2, 3, 4, 5, 6, 7, 8::int]"
  by (simp add: upto.simps)

text \<open>
  C9. In a playback pass over a timeline with well-formed program changes, if the
  replay loop reads the cancellation flag set in some iteration \<open>k\<close>, and the flag
  is still set where the tail wait and the duration matching test it, then the
  thread returns, without exception, and what it does after the loop is exactly
  this: it sends the device-stop trigger (note-on and, 0.01 s later, note-off of
  note 33 on the auto channel); it calls the completion callback if the flag is
  clear there; and in an isolation pass it sends the stop trigger twice more and
  unmutes the eight tracks. Neither the tail sleep nor the matching sleep takes
  place.
\<close>

theorem C9_cancel_sends_stop_and_skips_waits:
  assumes "wf_pcs evs" and "stop_at_loop env k" and "stop_at_tail env" and "stop_at_match env"
  shows "\<exists>tr. run_replay env evs args = Some (tr, None)
     \<and> playback_loop env evs args =
         Some (tr
               @ [Send [0x90 OR (prog_change_channel args - 1), 33, 100], Sleep 0.01,
                  Send [0x80 OR (prog_change_channel args - 1), 33, 0]]
               @ (if on_complete args \<and> \<not> stop_at_done env then [OnComplete] else [])
               @ (case isolated_track args of
                    None \<Rightarrow> []
                  | Some s \<Rightarrow>
                      [Send [0x90 OR (prog_change_channel args - 1), 33, 100], Sleep 0.01,
                       Send [0x80 OR (prog_change_channel args - 1), 33, 0], Sleep 0.02,
                       Send [0x90 OR (prog_change_channel args - 1), 33, 100], Sleep 0.01,
                       Send [0x80 OR (prog_change_channel args - 1), 33, 0], Sleep 0.3,
                       Send [0xB0, 49, 0], Sleep 0.02, Send [0xB1, 49, 0], Sleep 0.02,
                       Send [0xB2, 49, 0], Sleep 0.02, Send [0xB3, 49, 0], Sleep 0.02,
                       Send [0xB4, 49, 0], Sleep 0.02, Send [0xB5, 49, 0], Sleep 0.02,
                       Send [0xB6, 49, 0], Sleep 0.02, Send [0xB7, 49, 0], Sleep 0.02]),
               None)"
proof -
  from assms(2) have "loop_exit_at env evs args k" by (simp add: loop_exit_at_def)
  from run_replay_exits [OF assms(1) this]
  obtain tr where tr: "run_replay env evs args = Some (tr, None)" by blast
  from assms(3,4) have "after_loop env args =
      [Send [0x90 OR (prog_change_channel args - 1), 33, 100], Sleep 0.01,
       Send [0x80 OR (prog_change_channel args - 1), 33, 0]]
      @ (if on_complete args \<and> \<not> stop_at_done env then [OnComplete] else [])
      @ (case isolated_track args of
           None \<Rightarrow> []
         | Some s \<Rightarrow>
             [Send [0x90 OR (prog_change_channel args - 1), 33, 100], Sleep 0.01,
              Send [0x80 OR (prog_change_channel args - 1), 33, 0], Sleep 0.02,
              Send [0x90 OR (prog_change_channel args - 1), 33, 100], Sleep 0.01,
              Send [0x80 OR (prog_change_channel args - 1), 33, 0], Sleep 0.3,
              Send [0xB0, 49, 0], Sleep 0.02, Send [0xB1, 49, 0], Sleep 0.02,
              Send [0xB2, 49, 0], Sleep 0.02, Send [0xB3, 49, 0], Sleep 0.02,
              Send [0xB4, 49, 0], Sleep 0.02, Send [0xB5, 49, 0], Sleep 0.02,
              Send [0xB6, 49, 0], Sleep 0.02, Send [0xB7, 49, 0], Sleep 0.02])"
    by (simp add: after_loop_def Let_def send_ot_stop_def unmute_all_tracks_def upto_1_8
        split: option.splits)
  with tr show ?thesis by (simp add: playback_loop_def)
qed

text \<open>
  C10. If the flag is set where \<open>_playback_loop\<close> tests it before the completion
  callback, a pass that returns (or raises) has not called the callback. With an
  output port open, a callback passed, well-formed program changes, a loop that
  exits and the flag clear at that test, \<open>start_playback\<close> does not call the
  callback itself, and the thread it starts returns and calls it exactly once.
\<close>

theorem C10_completion_callback:
  "(stop_at_done env \<and> playback_loop env evs args = Some (tr, r) \<longrightarrow> OnComplete \<notin> set tr)
   \<and> (midi_out h \<and> on_complete args \<and> wf_pcs (events h) \<and> loop_exit_at env (events h) args k
        \<and> \<not> stop_at_done env \<longrightarrow>
        fst (start_playback h args) = [] \<and> fst (snd (start_playback h args)) = Some args
        \<and> (\<exists>tr'. playback_loop env (events h) args = Some (tr', None)
               \<and> count_list tr' OnComplete = 1))"
proof (intro conjI impI)
  assume a: "stop_at_done env \<and> playback_loop env evs args = Some (tr, r)"
  then obtain tr0 where run: "run_replay env evs args = Some (tr0, r)"
    and tr: "tr = (case r of None \<Rightarrow> tr0 @ after_loop env args | Some e \<Rightarrow> tr0)"
    by (auto simp: playback_loop_def split: option.splits)
  from run have "replay_loop env evs (isolated_track args) (early_pc_events_of evs)
       (time_start env - pre_roll args) (playback_duration_of evs args)
       0 0 {} (before_loop args) = Some (tr0, r)"
    by (simp add: run_replay_def)
  from replay_loop_extends [OF this] have "OnComplete \<notin> set tr0"
    by (auto simp: OnComplete_notin_before_loop)
  moreover from a have "count_list (after_loop env args) OnComplete = 0"
    by (simp add: count_after_loop)
  then have "OnComplete \<notin> set (after_loop env args)" by (simp add: count_list_0_iff)
  ultimately show "OnComplete \<notin> set tr" by (simp add: tr split: option.splits)
next
  assume b: "midi_out h \<and> on_complete args \<and> wf_pcs (events h)
     \<and> loop_exit_at env (events h) args k \<and> \<not> stop_at_done env"
  then show "fst (start_playback h args) = []" "fst (snd (start_playback h args)) = Some args"
    by (simp_all add: start_playback_def)
  from b run_replay_exits [of "events h" env args k]
  obtain ext where run: "run_replay env (events h) args = Some (before_loop args @ ext, None)"
    and ext: "OnComplete \<notin> set ext"
    by blast
  from run have "playback_loop env (events h) args
      = Some (before_loop args @ ext @ after_loop env args, None)"
    by (simp add: playback_loop_def)
  moreover from b ext have "count_list (before_loop args @ ext @ after_loop env args) OnComplete = 1"
    by (simp add: count_after_loop OnComplete_notin_before_loop)
  ultimately show "\<exists>tr'. playback_loop env (events h) args = Some (tr', None)
      \<and> count_list tr' OnComplete = 1"
    by blast
qed

text \<open>The two demonstration runs, evaluated.\<close>

lemma demo_no_pcs: "early_pc_events_of demo_timeline = []"
  by (simp add: early_pc_events_of_def calculate_pc_lead_times_def pc_events_def
      demo_timeline_def upt_rec)

lemma demo_duration: "playback_duration_of demo_timeline args_demo = 9"
  by (simp add: playback_duration_of_def args_demo_def)

lemma cancel_run:
  "run_replay cancel_env demo_timeline args_demo
     = Some (before_loop args_demo @ [Sleep 0.001, Send [0xB2, 49, 127], Sleep 0.001], None)"
  unfolding run_replay_def demo_no_pcs demo_duration
  by (simp add: replay_loop.simps cancel_env_def args_demo_def
      dispatch_due.simps demo_timeline_def should_filter_event_def)


lemma full_run:
  "run_replay full_env demo_timeline args_demo
     = Some (before_loop args_demo
             @ [Sleep 0.001, Send [0xB2, 49, 127], Send [0x90, 60, 100], Send [0xB1, 7, 100],
                Sleep 0.001], None)"
  unfolding run_replay_def demo_no_pcs demo_duration
  by (simp add: replay_loop.simps full_env_def args_demo_def
      dispatch_due.simps demo_timeline_def should_filter_event_def)

lemma demo_wf_pcs: "wf_pcs demo_timeline"
  by (simp add: wf_pcs_def demo_timeline_def)

lemma cancel_playback:
  "playback_loop cancel_env demo_timeline args_demo
     = Some (before_loop args_demo @ [Sleep 0.001, Send [0xB2, 49, 127], Sleep 0.001]
             @ send_ot_stop 15 @ isolation_cleanup args_demo, None)"
  by (simp add: playback_loop_def cancel_run after_loop_parts)
     (simp add: cancel_env_def args_demo_def)

theorem C9_witness:
  "wf_pcs demo_timeline \<and> stop_at_loop cancel_env 2 \<and> stop_at_tail cancel_env
   \<and> stop_at_match cancel_env
   \<and> playback_loop cancel_env demo_timeline args_demo
       = Some ((before_loop args_demo @ [Sleep 0.001, Send [0xB2, 49, 127], Sleep 0.001])
               @ [Send [0x9F, 33, 100], Sleep 0.01, Send [0x8F, 33, 0],
                  Send [0x9F, 33, 100], Sleep 0.01, Send [0x8F, 33, 0], Sleep 0.02,
                  Send [0x9F, 33, 100], Sleep 0.01, Send [0x8F, 33, 0], Sleep 0.3,
                  Send [0xB0, 49, 0], Sleep 0.02, Send [0xB1, 49, 0], Sleep 0.02,
                  Send [0xB2, 49, 0], Sleep 0.02, Send [0xB3, 49, 0], Sleep 0.02,
                  Send [0xB4, 49, 0], Sleep 0.02, Send [0xB5, 49, 0], Sleep 0.02,
                  Send [0xB6, 49, 0], Sleep 0.02, Send [0xB7, 49, 0], Sleep 0.02], None)"
proof -
  have h: "stop_at_loop cancel_env 2" "stop_at_tail cancel_env" "stop_at_match cancel_env"
    and d: "\<not> (on_complete args_demo \<and> \<not> stop_at_done cancel_env)"
    and c: "prog_change_channel args_demo - 1 = 15"
    and i: "isolated_track args_demo = Some 3"
    by (simp_all add: cancel_env_def args_demo_def)
  from C9_cancel_sends_stop_and_skips_waits [OF demo_wf_pcs h, of args_demo]
  obtain tr where "run_replay cancel_env demo_timeline args_demo = Some (tr, None)"
    and p: "playback_loop cancel_env demo_timeline args_demo =
         Some (tr
               @ [Send [0x90 OR (prog_change_channel args_demo - 1), 33, 100], Sleep 0.01,
                  Send [0x80 OR (prog_change_channel args_demo - 1), 33, 0]]
               @ (if on_complete args_demo \<and> \<not> stop_at_done cancel_env then [OnComplete] else [])
               @ (case isolated_track args_demo of
                    None \<Rightarrow> []
                  | Some s \<Rightarrow>
                      [Send [0x90 OR (prog_change_channel args_demo - 1), 33, 100], Sleep 0.01,
                       Send [0x80 OR (prog_change_channel args_demo - 1), 33, 0], Sleep 0.02,
                       Send [0x90 OR (prog_change_channel args_demo - 1), 33, 100], Sleep 0.01,
                       Send [0x80 OR (prog_change_channel args_demo - 1), 33, 0], Sleep 0.3,
                       Send [0xB0, 49, 0], Sleep 0.02, Send [0xB1, 49, 0], Sleep 0.02,
                       Send [0xB2, 49, 0], Sleep 0.02, Send [0xB3, 49, 0], Sleep 0.02,
                       Send [0xB4, 49, 0], Sleep 0.02, Send [0xB5, 49, 0], Sleep 0.02,
                       Send [0xB6, 49, 0], Sleep 0.02, Send [0xB7, 49, 0], Sleep 0.02]),
               None)"
    by blast
  then have "tr = before_loop args_demo @ [Sleep 0.001, Send [0xB2, 49, 127], Sleep 0.001]"
    by (simp add: cancel_run)
  with p d c i have "playback_loop cancel_env demo_timeline args_demo
       = Some ((before_loop args_demo @ [Sleep 0.001, Send [0xB2, 49, 127], Sleep 0.001])
               @ [Send [0x9F, 33, 100], Sleep 0.01, Send [0x8F, 33, 0],
                  Send [0x9F, 33, 100], Sleep 0.01, Send [0x8F, 33, 0], Sleep 0.02,
                  Send [0x9F, 33, 100], Sleep 0.01, Send [0x8F, 33, 0], Sleep 0.3,
                  Send [0xB0, 49, 0], Sleep 0.02, Send [0xB1, 49, 0], Sleep 0.02,
                  Send [0xB2, 49, 0], Sleep 0.02, Send [0xB3, 49, 0], Sleep 0.02,
                  Send [0xB4, 49, 0], Sleep 0.02, Send [0xB5, 49, 0], Sleep 0.02,
                  Send [0xB6, 49, 0], Sleep 0.02, Send [0xB7, 49, 0], Sleep 0.02], None)"
    by simp
  with demo_wf_pcs h show ?thesis by blast
qed

theorem C10_witness:
  "stop_at_done cancel_env
   \<and> playback_loop cancel_env demo_timeline args_demo
       = Some (before_loop args_demo @ [Sleep 0.001, Send [0xB2, 49, 127], Sleep 0.001]
               @ send_ot_stop 15 @ isolation_cleanup args_demo, None)
   \<and> OnComplete \<notin> set (before_loop args_demo @ [Sleep 0.001, Send [0xB2, 49, 127], Sleep 0.001]
               @ send_ot_stop 15 @ isolation_cleanup args_demo)
   \<and> midi_out replay_handler \<and> on_complete args_demo \<and> wf_pcs (events replay_handler)
   \<and> loop_exit_at full_env (events replay_handler) args_demo 2 \<and> \<not> stop_at_done full_env
   \<and> fst (start_playback replay_handler args_demo) = []
   \<and> (\<exists>tr'. playback_loop full_env (events replay_handler) args_demo = Some (tr', None)
          \<and> count_list tr' OnComplete = 1)"
proof -
  have a: "stop_at_done cancel_env" by (simp add: cancel_env_def)
  have ev: "events replay_handler = demo_timeline" by (simp add: replay_handler_def)
  have b: "midi_out replay_handler" "on_complete args_demo" "wf_pcs (events replay_handler)"
    "\<not> stop_at_done full_env"
    by (simp_all add: replay_handler_def args_demo_def demo_wf_pcs full_env_def)
  have e: "loop_exit_at full_env (events replay_handler) args_demo 2"
    unfolding loop_exit_at_def ev demo_duration
    by (simp add: full_env_def args_demo_def)
  note inst = C10_completion_callback [of cancel_env demo_timeline args_demo
      "before_loop args_demo @ [Sleep 0.001, Send [0xB2, 49, 127], Sleep 0.001]
               @ send_ot_stop 15 @ isolation_cleanup args_demo" None
      replay_handler 2]
  from inst a cancel_playback
  have 1: "OnComplete \<notin> set (before_loop args_demo @ [Sleep 0.001, Send [0xB2, 49, 127], Sleep 0.001]
               @ send_ot_stop 15 @ isolation_cleanup args_demo)"
    by blast
  from C10_completion_callback [of full_env demo_timeline args_demo "[]" None
      replay_handler 2] b e
  have 2: "fst (start_playback replay_handler args_demo) = []
     \<and> (\<exists>tr'. playback_loop full_env (events replay_handler) args_demo = Some (tr', None)
          \<and> count_list tr' OnComplete = 1)"
    by blast
  from a cancel_playback 1 b e 2 show ?thesis by blast
qed

subsection \<open>The replay loop of an isolation pass as a whole\<close>

text \<open>
  Over all iterations of the replay loop: in an isolation pass of track \<open>s\<close>,
  whatever the clock and the flag do, no message sent after the steps before the
  loop is a mute control change of another track. The early dispatcher only sends
  program changes, the regular dispatcher only what it keeps.
\<close>

lemma dispatch_early_sends:
  "m \<in> set (fst (dispatch_early evs cur early sent)) \<Longrightarrow>
   \<exists>x \<in> set early. snd x < length evs \<and> m = message (evs ! snd x)"
proof (induction early arbitrary: sent)
  case Nil
  then show ?case by simp
next
  case (Cons x xs)
  obtain adj idx where x: "x = (adj, idx)" by (cases x)
  show ?case
  proof (cases "idx \<notin> sent \<and> adj \<le> cur")
    case False
    with Cons.prems have "m \<in> set (fst (dispatch_early evs cur xs sent))"
      by (auto simp: x)
    from Cons.IH [OF this] show ?thesis by auto
  next
    case True
    show ?thesis
    proof (cases "idx < length evs \<and> 2 \<le> length (message (evs ! idx))")
      case False
      with True Cons.prems show ?thesis by (auto simp: x Let_def split: if_splits)
    next
      case ok: True
      with True Cons.prems
      have "m = message (evs ! idx) \<or> m \<in> set (fst (dispatch_early evs cur xs (insert idx sent)))"
        by (auto simp: x Let_def case_prod_beta)
      then show ?thesis
      proof
        assume "m = message (evs ! idx)"
        with ok show ?thesis by (auto simp: x)
      next
        assume "m \<in> set (fst (dispatch_early evs cur xs (insert idx sent)))"
        from Cons.IH [OF this] show ?thesis by auto
      qed
    qed
  qed
qed

lemma early_pc_events_of_pc:
  "x \<in> set (early_pc_events_of evs) \<Longrightarrow>
   snd x < length evs \<and> 1 \<le> length (message (evs ! snd x))
   \<and> (message (evs ! snd x) ! 0) AND 0xF0 = 0xC0"
proof -
  assume "x \<in> set (early_pc_events_of evs)"
  then have "snd x \<in> fst ` set (calculate_pc_lead_times 0.2 evs)"
    by (force simp: early_pc_events_of_def)
  also have "fst ` set (calculate_pc_lead_times 0.2 evs) = set (map fst (pc_events evs))"
    by (simp add: calculate_pc_lead_times_def map_fst_lead_loop flip: set_map)
  finally obtain t where "(snd x, t) \<in> set (pc_events evs)" by auto
  from pc_events_index [OF this] show ?thesis .
qed

lemma replay_loop_isolated_sends:
  assumes "replay_loop env evs isolated early start pd n i sent trace = Some y"
  shows "isolated = Some s \<longrightarrow> i \<le> length evs \<longrightarrow>
         (\<forall>x \<in> set early. snd x < length evs \<longrightarrow> (message (evs ! snd x) ! 0) AND 0xF0 = 0xC0) \<longrightarrow>
         (\<exists>ext. fst y = trace @ ext
            \<and> (\<forall>m. Send m \<in> set ext \<longrightarrow> \<not> mute_cc_for_other_track m s))"
proof (rule replay_loop.raw_induct
    [where P = "\<lambda>env evs isolated early start pd n i sent trace y.
       isolated = Some s \<longrightarrow> i \<le> length evs \<longrightarrow>
       (\<forall>x \<in> set early. snd x < length evs \<longrightarrow> (message (evs ! snd x) ! 0) AND 0xF0 = 0xC0) \<longrightarrow>
       (\<exists>ext. fst y = trace @ ext
          \<and> (\<forall>m. Send m \<in> set ext \<longrightarrow> \<not> mute_cc_for_other_track m s))",
     OF _ assms], goal_cases)
  case (1 loop env evs isolated early start pd n i sent trace y)
  note IH = "1"(1) and eq = "1"(2)
  show ?case
  proof (intro impI)
    assume isol: "isolated = Some s" and i: "i \<le> length evs"
      and pcs: "\<forall>x \<in> set early. snd x < length evs \<longrightarrow> (message (evs ! snd x) ! 0) AND 0xF0 = 0xC0"
    define cur where "cur = time_at_loop env n - start"
    obtain ms1 sent' r where de: "dispatch_early evs cur early sent = (ms1, sent', r)"
      by (cases "dispatch_early evs cur early sent")
    have ms1: "\<not> mute_cc_for_other_track m s" if "m \<in> set ms1" for m
    proof -
      from that de have "m \<in> set (fst (dispatch_early evs cur early sent))" by simp
      from dispatch_early_sends [OF this] pcs
      have "(m ! 0) AND 0xF0 = 0xC0" by auto
      then show ?thesis by (simp add: mute_cc_for_other_track_def)
    qed
    show "\<exists>ext. fst y = trace @ ext
            \<and> (\<forall>m. Send m \<in> set ext \<longrightarrow> \<not> mute_cc_for_other_track m s)"
    proof (cases "stop_at_loop env n \<or> pd \<le> cur")
      case True
      with eq have "fst y = trace @ []" by (auto simp: Let_def cur_def split: if_splits)
      then show ?thesis by (intro exI [of _ "[]"]) simp
    next
      case False
      show ?thesis
      proof (cases r)
        case (Some e)
        with False de eq have "fst y = trace @ map Send ms1"
          by (auto simp: Let_def cur_def)
        with ms1 show ?thesis by (intro exI [of _ "map Send ms1"]) auto
      next
        case None
        obtain ms2 j where dd: "dispatch_due evs (Some s) sent' cur i = (ms2, j)"
          by (cases "dispatch_due evs (Some s) sent' cur i")
        from dispatch_due_general [OF dd i]
        have j: "j \<le> length evs"
          and ms2: "ms2 = map (\<lambda>k. message (evs ! k)) (filter (kept evs (Some s) sent') [i..<j])"
          by simp_all
        have ms2': "\<not> mute_cc_for_other_track m s" if "m \<in> set ms2" for m
          using that unfolding ms2 by (auto simp: kept_def should_filter_event_iff)
        from None False de dd eq isol
        have "loop env evs isolated early start pd (Suc n) j sent'
                (trace @ map Send ms1 @ map Send ms2 @ [Sleep 0.001]) = Some y"
          by (auto simp: Let_def cur_def)
        from IH [OF this] isol j pcs obtain ext where
          e: "fst y = (trace @ map Send ms1 @ map Send ms2 @ [Sleep 0.001]) @ ext"
          "\<forall>m. Send m \<in> set ext \<longrightarrow> \<not> mute_cc_for_other_track m s"
          by blast
        with ms1 ms2' show ?thesis
          by (intro exI [of _ "map Send ms1 @ map Send ms2 @ [Sleep 0.001] @ ext"]) auto
      qed
    qed
  qed
qed

lemma isolation_pass_never_replays_other_mutes:
  assumes "run_replay env evs args = Some (tr, r)" and "isolated_track args = Some s"
  shows "\<exists>ext. tr = before_loop args @ ext
      \<and> (\<forall>m. Send m \<in> set ext \<longrightarrow> \<not> mute_cc_for_other_track m s)"
proof -
  from assms(1) have "replay_loop env evs (isolated_track args) (early_pc_events_of evs)
       (time_start env - pre_roll args) (playback_duration_of evs args)
       0 0 {} (before_loop args) = Some (tr, r)"
    by (simp add: run_replay_def)
  from replay_loop_isolated_sends [OF this, of s] assms(2) early_pc_events_of_pc [of _ evs]
  show ?thesis by auto
qed

end
